theory Spec2Isabelle
  imports Main "HOL-Library.Multiset" "HOL-Library.AList" "HOL-Library.Code_Target_Numeral"
begin

section \<open>Data model of aa-session-batcher.ts\<close>

text \<open>
  The TypeScript types \<^verbatim>\<open>UserOperation\<close>, \<^verbatim>\<open>QueueEntry\<close> and \<^verbatim>\<open>Args\<close> become records with
  the source's field names. \<^verbatim>\<open>Hex\<close> and the "hex" numeric fields are JavaScript strings;
  they are kept as strings here, since the program compares and parses their text.
  Characters are restricted to the 8-bit range of \<^typ>\<open>char\<close>.
\<close>

type_synonym Hex = string

record UserOperation =
  sender :: Hex
  nonce :: string
  initCode :: Hex
  callData :: Hex
  callGasLimit :: string
  verificationGasLimit :: string
  preVerificationGas :: string
  maxFeePerGas :: string
  maxPriorityFeePerGas :: string
  paymasterAndData :: Hex
  signature :: Hex

record QueueEntry =
  op :: UserOperation
  target :: Hex
  session :: string
  createdAt :: int

text \<open>
  \<^verbatim>\<open>maxPerTargetPerMin\<close> is a JavaScript number produced by \<^verbatim>\<open>Number(v)\<close>. It is only used
  through \<^verbatim>\<open>Math.max(0, _)\<close> and as an argument of \<^verbatim>\<open>Array.prototype.slice\<close>, which truncates
  it to an integer, so it is modelled as an integer.
\<close>

record Args =
  bundler :: string
  entrypoint :: Hex
  queue :: string
  maxPerTargetPerMin :: int
  dryRun :: bool

text \<open>
  The module-level constant \<^verbatim>\<open>POLICY\<close>. The functions below take the policy as an argument,
  and \<open>POLICY\<close> is the value the source gives it.
\<close>

record Policy =
  blockedTargets :: "string set"
  maxCallGas :: int
  maxFeeGwei :: int
  maxPriorityGwei :: int

definition POLICY :: Policy where
  "POLICY = \<lparr>blockedTargets = {}, maxCallGas = 6000000, maxFeeGwei = 200, maxPriorityGwei = 20\<rparr>"

text \<open>Every exception the program can raise is a value of this type.\<close>

datatype error =
    SyntaxError
  | TypeError
  | RangeError
  | FetchFailed
  | RpcFailed nat
  | RpcError

section \<open>BigInt conversions\<close>

text \<open>
  \<^verbatim>\<open>BigInt(s)\<close> on a string follows StringToBigInt of ECMAScript: surrounding white space is
  removed; the empty string is \<open>0n\<close>; otherwise the text is an optionally signed decimal
  literal, or an unsigned literal with prefix \<^verbatim>\<open>0x\<close>, \<^verbatim>\<open>0o\<close> or \<^verbatim>\<open>0b\<close>; anything else throws
  a SyntaxError (\<open>None\<close> here).
\<close>

definition isWhiteSpace :: "char \<Rightarrow> bool" where
  "isWhiteSpace c = (of_char c \<in> {9, 10, 11, 12, 13, 32, (160::nat)})"

definition trim :: "string \<Rightarrow> string" where
  "trim s = rev (dropWhile isWhiteSpace (rev (dropWhile isWhiteSpace s)))"

definition digitVal :: "char \<Rightarrow> nat option" where
  "digitVal c =
     (let n = (of_char c :: nat) in
      if 48 \<le> n \<and> n \<le> 57 then Some (n - 48)
      else if 97 \<le> n \<and> n \<le> 102 then Some (n - 87)
      else if 65 \<le> n \<and> n \<le> 70 then Some (n - 55)
      else None)"

fun parseDigits :: "nat \<Rightarrow> nat \<Rightarrow> string \<Rightarrow> nat option" where
  "parseDigits r acc [] = Some acc"
| "parseDigits r acc (c # cs) =
     (case digitVal c of
        None \<Rightarrow> None
      | Some d \<Rightarrow> if d < r then parseDigits r (acc * r + d) cs else None)"

definition parseRadix :: "nat \<Rightarrow> string \<Rightarrow> nat option" where
  "parseRadix r ds = (if ds = [] then None else parseDigits r 0 ds)"

definition StringToBigInt :: "string \<Rightarrow> int option" where
  "StringToBigInt str =
     (let s = trim str in
      if s = [] then Some 0
      else if take 2 s = ''0x'' \<or> take 2 s = ''0X'' then map_option int (parseRadix 16 (drop 2 s))
      else if take 2 s = ''0o'' \<or> take 2 s = ''0O'' then map_option int (parseRadix 8 (drop 2 s))
      else if take 2 s = ''0b'' \<or> take 2 s = ''0B'' then map_option int (parseRadix 2 (drop 2 s))
      else if hd s = CHR ''-'' then map_option (\<lambda>n. - int n) (parseRadix 10 (tl s))
      else if hd s = CHR ''+'' then map_option int (parseRadix 10 (tl s))
      else map_option int (parseRadix 10 s))"

definition BigInt :: "string \<Rightarrow> error + int" where
  "BigInt s = (case StringToBigInt s of None \<Rightarrow> Inl SyntaxError | Some i \<Rightarrow> Inr i)"

text \<open>
  \<^verbatim>\<open>BigInt.prototype.toString(radix)\<close>. The program uses the radices 10 and 16. JavaScript
  throws a RangeError for a radix outside 2 to 36; no digits are produced for one here, so
  that \<open>digitChar\<close> is only ever applied below 36.
\<close>

definition digitChar :: "nat \<Rightarrow> char" where
  "digitChar d = ''0123456789abcdefghijklmnopqrstuvwxyz'' ! d"

function toDigits :: "nat \<Rightarrow> nat \<Rightarrow> string" where
  "toDigits r n =
     (if r < 2 \<or> 36 < r then []
      else if n < r then [digitChar n]
      else toDigits r (n div r) @ [digitChar (n mod r)])"
  by pat_completeness auto
termination
  by (relation "measure (\<lambda>(r, n). n)") auto

definition toString :: "nat \<Rightarrow> int \<Rightarrow> string" where
  "toString r i = (if i < 0 then CHR ''-'' # toDigits r (nat (- i)) else toDigits r (nat i))"

text \<open>\<^verbatim>\<open>x > s\<close> for a BigInt \<open>x\<close> and a string \<open>s\<close>: the string is converted with StringToBigInt,
  and the comparison is false when the conversion fails.\<close>

definition bigint_gt_string :: "int \<Rightarrow> string \<Rightarrow> bool" where
  "bigint_gt_string x s = (case StringToBigInt s of None \<Rightarrow> False | Some y \<Rightarrow> x > y)"

section \<open>Policy validation\<close>

definition gweiToWeiHex :: "int \<Rightarrow> string" where
  "gweiToWeiHex g = ''0x'' @ toString 16 (g * 1000000000)"

text \<open>
  \<^verbatim>\<open>validate\<close>: the three \<^verbatim>\<open>BigInt\<close> conversions can throw; the two fee comparisons of the
  source have empty bodies, so both branches leave \<open>errs\<close> as it is.
\<close>

definition validate :: "Policy \<Rightarrow> UserOperation \<Rightarrow> error + string list" where
  "validate pol uo =
     (case BigInt (callGasLimit uo) of
        Inl e \<Rightarrow> Inl e
      | Inr callGas \<Rightarrow>
          let errs1 = (if callGas > maxCallGas pol
                       then [''callGasLimit too high: '' @ toString 10 callGas] else [])
          in (case BigInt (maxFeePerGas uo) of
                Inl e \<Rightarrow> Inl e
              | Inr maxFee \<Rightarrow>
                  (case BigInt (maxPriorityFeePerGas uo) of
                     Inl e \<Rightarrow> Inl e
                   | Inr maxPrio \<Rightarrow>
                       let errs2 = (if bigint_gt_string maxFee (gweiToWeiHex (maxFeeGwei pol))
                                    then errs1 else errs1);
                           errs3 = (if bigint_gt_string maxPrio (gweiToWeiHex (maxPriorityGwei pol))
                                    then errs2 else errs2)
                       in if length (initCode uo) > 2 \<and> signature uo = ''0x''
                          then Inr (errs3 @ [''initCode present but signature empty (likely invalid)''])
                          else Inr errs3)))"

section \<open>Queue store\<close>

text \<open>
  The queue file as \<^verbatim>\<open>loadQueue\<close> can find it: absent, present with text that
  \<^verbatim>\<open>JSON.parse\<close> rejects, present with a JSON value that is not an array, or present with an
  array of entries. \<^verbatim>\<open>saveQueue\<close> overwrites it with an array.
\<close>

datatype queue_file = Missing | Unparsable | NotArray | Entries "QueueEntry list"

fun loadQueue :: "queue_file \<Rightarrow> error + QueueEntry list" where
  "loadQueue Missing = Inr []"
| "loadQueue Unparsable = Inl SyntaxError"
| "loadQueue NotArray = Inr []"
| "loadQueue (Entries data) = Inr data"

definition saveQueue :: "QueueEntry list \<Rightarrow> queue_file" where
  "saveQueue items = Entries items"

section \<open>Grouping by target\<close>

text \<open>
  \<^verbatim>\<open>String.prototype.toLowerCase\<close> on the characters U+0000 to U+00FF: the letters A to Z
  (65 to 90) and the Latin-1 capitals U+00C0 to U+00DE (192 to 222) without the
  multiplication sign U+00D7 (215) are moved up by 32; every other character of the range
  is left as it is. A JavaScript \<^verbatim>\<open>Map\<close> iterates in the order in which its keys were first
  inserted, and \<^verbatim>\<open>set\<close> on a present key keeps the key's place: that is \<^const>\<open>AList.update\<close>
  on an association list.
\<close>

definition toLowerChar :: "char \<Rightarrow> char" where
  "toLowerChar c =
     (let n = (of_char c :: nat) in
      if (65 \<le> n \<and> n \<le> 90) \<or> (192 \<le> n \<and> n \<le> 214) \<or> (216 \<le> n \<and> n \<le> 222)
      then char_of (n + 32) else c)"

definition toLowerCase :: "string \<Rightarrow> string" where
  "toLowerCase s = map toLowerChar s"

fun groupLoop :: "(string \<times> QueueEntry list) list \<Rightarrow> QueueEntry list \<Rightarrow> (string \<times> QueueEntry list) list" where
  "groupLoop m [] = m"
| "groupLoop m (it # items) =
     (let key = toLowerCase (target it);
          arr = (case map_of m key of None \<Rightarrow> [] | Some a \<Rightarrow> a)
      in groupLoop (AList.update key (arr @ [it]) m) items)"

definition groupByTarget :: "QueueEntry list \<Rightarrow> (string \<times> QueueEntry list) list" where
  "groupByTarget items = groupLoop [] items"

section \<open>Batch selection\<close>

text \<open>
  The two nested loops of \<^verbatim>\<open>main\<close> that fill \<^verbatim>\<open>toSend\<close> and \<^verbatim>\<open>keep\<close>. The accumulators are
  passed along; an exception of \<^verbatim>\<open>validate\<close> leaves both loops.
\<close>

fun pickedLoop :: "Policy \<Rightarrow> string \<Rightarrow> QueueEntry list \<Rightarrow> UserOperation list \<times> QueueEntry list
    \<Rightarrow> error + UserOperation list \<times> QueueEntry list" where
  "pickedLoop pol tgt [] (toSend, keep) = Inr (toSend, keep)"
| "pickedLoop pol tgt (it # picked) (toSend, keep) =
     (if tgt \<in> blockedTargets pol then pickedLoop pol tgt picked (toSend, keep @ [it])
      else (case validate pol (op it) of
              Inl e \<Rightarrow> Inl e
            | Inr errs \<Rightarrow>
                if length errs \<noteq> 0 then pickedLoop pol tgt picked (toSend, keep)
                else pickedLoop pol tgt picked (toSend @ [op it], keep)))"

fun targetLoop :: "Policy \<Rightarrow> int \<Rightarrow> (string \<times> QueueEntry list) list
    \<Rightarrow> UserOperation list \<times> QueueEntry list \<Rightarrow> error + UserOperation list \<times> QueueEntry list" where
  "targetLoop pol cap [] acc = Inr acc"
| "targetLoop pol cap ((tgt, items) # byTarget) acc =
     (let sentRecently = 0;
          allowed = max 0 (cap - sentRecently);
          picked = take (nat allowed) items;
          rest = drop (nat allowed) items
      in (case pickedLoop pol tgt picked acc of
            Inl e \<Rightarrow> Inl e
          | Inr (toSend, keep) \<Rightarrow> targetLoop pol cap byTarget (toSend, keep @ rest)))"

definition select :: "Policy \<Rightarrow> int \<Rightarrow> QueueEntry list \<Rightarrow> error + UserOperation list \<times> QueueEntry list" where
  "select pol cap q = targetLoop pol cap (groupByTarget q) ([], [])"

section \<open>Relay calls\<close>

text \<open>
  What one HTTP exchange of \<^verbatim>\<open>rpc\<close> can come to, in the order \<^verbatim>\<open>rpc\<close> tests it: \<^verbatim>\<open>fetch\<close>
  rejects; the status is not 2xx; the body is not JSON; the body has a truthy \<^verbatim>\<open>error\<close>
  member; otherwise the \<^verbatim>\<open>result\<close> member is returned. A result is a JSON value: a number
  is an integer or has a fractional part, and an absent \<^verbatim>\<open>result\<close> behaves as \<^verbatim>\<open>null\<close>.
  Arrays and objects are not modelled.
\<close>

datatype json = JNull | JBool bool | JInteger int | JFractional | JString string

datatype response =
    NetworkFailure
  | HttpStatus nat
  | BadBody
  | ErrorMember
  | Result json

fun rpc :: "response \<Rightarrow> error + json" where
  "rpc NetworkFailure = Inl FetchFailed"
| "rpc (HttpStatus st) = Inl (RpcFailed st)"
| "rpc BadBody = Inl SyntaxError"
| "rpc ErrorMember = Inl RpcError"
| "rpc (Result r) = Inr r"

text \<open>\<^verbatim>\<open>BigInt(v)\<close> on the value \<^verbatim>\<open>rpc\<close> returned.\<close>

fun BigIntOf :: "json \<Rightarrow> error + int" where
  "BigIntOf JNull = Inl TypeError"
| "BigIntOf (JBool b) = Inr (if b then 1 else 0)"
| "BigIntOf (JInteger i) = Inr i"
| "BigIntOf JFractional = Inl RangeError"
| "BigIntOf (JString s) = BigInt s"

text \<open>BigInt division rounds towards zero.\<close>

definition bigint_div :: "int \<Rightarrow> int \<Rightarrow> int" where
  "bigint_div a b = sgn a * sgn b * (\<bar>a\<bar> div \<bar>b\<bar>)"

record Fees =
  feeMaxFeePerGas :: string
  feeMaxPriorityFeePerGas :: string

definition estimateFees :: "response \<Rightarrow> error + Fees" where
  "estimateFees reply =
     (case rpc reply of
        Inl e \<Rightarrow> Inl e
      | Inr r \<Rightarrow>
          (case BigIntOf r of
             Inl e \<Rightarrow> Inl e
           | Inr base \<Rightarrow>
               let prio = bigint_div base 10
               in Inr \<lparr>feeMaxFeePerGas = ''0x'' @ toString 16 (base * 2),
                       feeMaxPriorityFeePerGas = ''0x'' @ toString 16 prio\<rparr>))"

definition sendBundle :: "response \<Rightarrow> error + json" where
  "sendBundle reply = rpc reply"

text \<open>
  The relay is given by its answers: one to the fee query, and one to each submission,
  numbered from 0 in the order the submissions are made.
\<close>

record Relay =
  gasPriceReply :: response
  sendReply :: "nat \<Rightarrow> response"

section \<open>The run\<close>

text \<open>
  A run is described by what it does to the outside, in order (relay calls, sleeps in
  seconds, writes of the queue file), by the queue file it leaves, and by how it ends.
  Console output is left out, and reading and writing the file are taken to succeed.

  The backfill loop assigns to the operations in \<^verbatim>\<open>toSend\<close> in place. They are the objects
  \<^verbatim>\<open>JSON.parse\<close> made for the entries that were selected, each its own, and none of them is in
  \<^verbatim>\<open>keep\<close>; so the assignment is seen by the submissions only, and the model passes the
  updated list to them.
\<close>

datatype event =
    GasPriceCall
  | SendBundleCall "UserOperation list" Hex
  | Sleep nat
  | SaveQueue "QueueEntry list"

datatype outcome =
    QueueEmpty
  | NothingSelected
  | DryRun nat
  | Sent json
  | Exhausted
  | Crashed error

record run =
  trace :: "event list"
  store :: queue_file
  outcome :: outcome

text \<open>The body of the backfill loop, for one operation.\<close>

definition setFees :: "Fees \<Rightarrow> UserOperation \<Rightarrow> UserOperation" where
  "setFees fees uo =
     (let uo1 = (if maxFeePerGas uo = ''0x0''
                 then uo\<lparr>maxFeePerGas := feeMaxFeePerGas fees\<rparr> else uo)
      in if maxPriorityFeePerGas uo1 = ''0x0''
         then uo1\<lparr>maxPriorityFeePerGas := feeMaxPriorityFeePerGas fees\<rparr> else uo1)"

text \<open>
  The retry loop. \<open>attempt\<close> counts the failures so far, so the next submission is the one
  numbered \<open>attempt\<close>. After the fifth failure the loop still sleeps before it ends.
\<close>

function sendLoop :: "Args \<Rightarrow> Relay \<Rightarrow> UserOperation list \<Rightarrow> QueueEntry list \<Rightarrow> queue_file
    \<Rightarrow> nat \<Rightarrow> event list \<Rightarrow> run" where
  "sendLoop args relay toSend keep qfile attempt tr =
     (if attempt < 5 then
        (case sendBundle (sendReply relay attempt) of
           Inr res \<Rightarrow>
             \<lparr>trace = tr @ [SendBundleCall toSend (entrypoint args), SaveQueue keep],
              store = saveQueue keep, outcome = Sent res\<rparr>
         | Inl e \<Rightarrow>
             let attempt' = attempt + 1;
                 wait = min 60 (2 ^ attempt')
             in sendLoop args relay toSend keep qfile attempt'
                  (tr @ [SendBundleCall toSend (entrypoint args), Sleep wait]))
      else \<lparr>trace = tr, store = qfile, outcome = Exhausted\<rparr>)"
  by pat_completeness auto
termination
  by (relation "measure (\<lambda>(args, relay, toSend, keep, qfile, attempt, tr). 5 - attempt)") auto

definition main :: "Policy \<Rightarrow> Args \<Rightarrow> Relay \<Rightarrow> queue_file \<Rightarrow> run" where
  "main pol args relay qfile =
     (case loadQueue qfile of
        Inl e \<Rightarrow> \<lparr>trace = [], store = qfile, outcome = Crashed e\<rparr>
      | Inr q \<Rightarrow>
          if length q = 0 then \<lparr>trace = [], store = qfile, outcome = QueueEmpty\<rparr>
          else
            (case select pol (maxPerTargetPerMin args) q of
               Inl e \<Rightarrow> \<lparr>trace = [], store = qfile, outcome = Crashed e\<rparr>
             | Inr (toSend, keep) \<Rightarrow>
                 if length toSend = 0
                 then \<lparr>trace = [], store = qfile, outcome = NothingSelected\<rparr>
                 else
                   (case estimateFees (gasPriceReply relay) of
                      Inl e \<Rightarrow> \<lparr>trace = [GasPriceCall], store = qfile, outcome = Crashed e\<rparr>
                    | Inr fees \<Rightarrow>
                        let toSend' = map (setFees fees) toSend
                        in if dryRun args
                           then \<lparr>trace = [GasPriceCall], store = qfile,
                                 outcome = DryRun (length toSend')\<rparr>
                           else sendLoop args relay toSend' keep qfile 0 [GasPriceCall])))"

section \<open>Notions used to state the properties\<close>

text \<open>
  Equality of two addresses without regard to case, written down apart from the key the
  source computes: two characters are the same letter when they are equal, or when they are
  the capital and the small form of one letter, which lie 32 apart, the capital being one
  of A to Z or of U+00C0 to U+00DE other than U+00D7; two strings are equal without regard
  to case when they have the same length and the same letters at every place. The entries
  queued for a target are those whose target equals it in this sense, in queue order.
\<close>

definition sameLetter :: "char \<Rightarrow> char \<Rightarrow> bool" where
  "sameLetter c d =
     (let m = (of_char c :: nat); n = (of_char d :: nat); u = min m n in
      m = n \<or> (max m n = u + 32 \<and> (65 \<le> u \<and> u \<le> 90 \<or> 192 \<le> u \<and> u \<le> 222 \<and> u \<noteq> 215)))"

definition sameIgnoringCase :: "string \<Rightarrow> string \<Rightarrow> bool" where
  "sameIgnoringCase s t = list_all2 sameLetter s t"

definition queuedFor :: "string \<Rightarrow> QueueEntry list \<Rightarrow> QueueEntry list" where
  "queuedFor T q = filter (\<lambda>e. sameIgnoringCase (target e) T) q"

text \<open>
  The group key of an entry, as the source computes it, and an operation on which none of
  the \<^verbatim>\<open>BigInt\<close> conversions of \<^verbatim>\<open>validate\<close> throws.
\<close>

definition groupKey :: "QueueEntry \<Rightarrow> string" where
  "groupKey e = toLowerCase (target e)"

definition wellFormed :: "UserOperation \<Rightarrow> bool" where
  "wellFormed uo =
     (StringToBigInt (callGasLimit uo) \<noteq> None \<and> StringToBigInt (maxFeePerGas uo) \<noteq> None
      \<and> StringToBigInt (maxPriorityFeePerGas uo) \<noteq> None)"

text \<open>
  The three outcomes of an entry. The candidates are the first \<open>max 0 cap\<close> entries of every
  group, the rate-limited entries the others. A target counts as blocked when the group key
  is a member of \<open>blockedTargets\<close>, which is the test the source makes.
\<close>

definition candidates :: "int \<Rightarrow> QueueEntry list \<Rightarrow> QueueEntry list" where
  "candidates cap q = concat (map (\<lambda>(t, items). take (nat (max 0 cap)) items) (groupByTarget q))"

definition rateLimited :: "int \<Rightarrow> QueueEntry list \<Rightarrow> QueueEntry list" where
  "rateLimited cap q = concat (map (\<lambda>(t, items). drop (nat (max 0 cap)) items) (groupByTarget q))"

definition blocked :: "Policy \<Rightarrow> QueueEntry \<Rightarrow> bool" where
  "blocked pol e = (groupKey e \<in> blockedTargets pol)"

definition admitted :: "Policy \<Rightarrow> QueueEntry \<Rightarrow> bool" where
  "admitted pol e = (validate pol (op e) = Inr [])"

definition sentEntries :: "Policy \<Rightarrow> int \<Rightarrow> QueueEntry list \<Rightarrow> QueueEntry list" where
  "sentEntries pol cap q = filter (\<lambda>e. \<not> blocked pol e \<and> admitted pol e) (candidates cap q)"

definition droppedEntries :: "Policy \<Rightarrow> int \<Rightarrow> QueueEntry list \<Rightarrow> QueueEntry list" where
  "droppedEntries pol cap q = filter (\<lambda>e. \<not> blocked pol e \<and> \<not> admitted pol e) (candidates cap q)"

text \<open>
  What one group adds to \<^verbatim>\<open>toSend\<close> and to \<^verbatim>\<open>keep\<close> in one round of the outer loop, when
  \<^verbatim>\<open>validate\<close> does not throw.
\<close>

definition sendPart :: "Policy \<Rightarrow> int \<Rightarrow> string \<times> QueueEntry list \<Rightarrow> UserOperation list" where
  "sendPart pol cap g =
     (if fst g \<in> blockedTargets pol then []
      else map op (filter (admitted pol) (take (nat (max 0 cap)) (snd g))))"

definition keepPart :: "Policy \<Rightarrow> int \<Rightarrow> string \<times> QueueEntry list \<Rightarrow> QueueEntry list" where
  "keepPart pol cap g =
     (if fst g \<in> blockedTargets pol then take (nat (max 0 cap)) (snd g) else [])
      @ drop (nat (max 0 cap)) (snd g)"

text \<open>Sample data for the concrete runs below.\<close>

definition sampleOp :: "string \<Rightarrow> string \<Rightarrow> UserOperation" where
  "sampleOp fee prio =
     \<lparr>sender = ''0x01'', nonce = ''0x0'', initCode = ''0x'', callData = ''0x'',
      callGasLimit = ''0x5208'', verificationGasLimit = ''0x0'', preVerificationGas = ''0x0'',
      maxFeePerGas = fee, maxPriorityFeePerGas = prio, paymasterAndData = ''0x'',
      signature = ''0x01''\<rparr>"

definition sampleEntry :: "string \<Rightarrow> string \<Rightarrow> UserOperation \<Rightarrow> QueueEntry" where
  "sampleEntry tgt ses uo = \<lparr>op = uo, target = tgt, session = ses, createdAt = 0\<rparr>"

definition sampleArgs :: "int \<Rightarrow> bool \<Rightarrow> Args" where
  "sampleArgs cap dry =
     \<lparr>bundler = ''http://127.0.0.1:3000'', entrypoint = ''0x0576a174D229E3cFA37253523E645A78A0C91B57'',
      queue = ''queue.json'', maxPerTargetPerMin = cap, dryRun = dry\<rparr>"

definition samplePolicy :: Policy where
  "samplePolicy = POLICY\<lparr>blockedTargets := {''0xcc''}\<rparr>"

definition unsignedOp :: UserOperation where
  "unsignedOp = (sampleOp ''0x1'' ''0x1'')\<lparr>initCode := ''0x6001'', signature := ''0x''\<rparr>"

definition sampleQueue :: "QueueEntry list" where
  "sampleQueue =
     [sampleEntry ''0xAA'' ''s1'' (sampleOp ''0x0'' ''0x0''),
      sampleEntry ''0xaa'' ''s2'' (sampleOp ''0x1'' ''0x1''),
      sampleEntry ''0xbb'' ''s3'' unsignedOp,
      sampleEntry ''0xCC'' ''s4'' (sampleOp ''0x2'' ''0x2'')]"

text \<open>A relay whose first \<open>failures\<close> submissions are answered with status 503.\<close>

definition sampleRelay :: "response \<Rightarrow> nat \<Rightarrow> Relay" where
  "sampleRelay gp failures =
     \<lparr>gasPriceReply = gp,
      sendReply = (\<lambda>k. if k < failures then HttpStatus 503 else Result (JString ''0xabc''))\<rparr>"

text \<open>
  Queues of one entry: one whose fees are both set, one whose fees are zero in another
  spelling than \<^verbatim>\<open>0x0\<close>, and one whose maxFeePerGas is the bare prefix \<^verbatim>\<open>0x\<close>.
\<close>

definition paidQueue :: "QueueEntry list" where
  "paidQueue = [sampleEntry ''0xaa'' ''s1'' (sampleOp ''0x1'' ''0x1'')]"

definition zeroQueue :: "QueueEntry list" where
  "zeroQueue = [sampleEntry ''0xaa'' ''s1'' (sampleOp ''0x00'' ''0'')]"

definition emptyHexQueue :: "QueueEntry list" where
  "emptyHexQueue = [sampleEntry ''0xaa'' ''s1'' (sampleOp ''0x'' ''0x1'')]"

text \<open>Two entries whose targets differ in the case of the Latin-1 letter U+00C0 only.\<close>

definition latinQueue :: "QueueEntry list" where
  "latinQueue =
     [sampleEntry [CHR ''0'', CHR ''x'', CHR 0xC0] ''s1'' (sampleOp ''0x1'' ''0x1''),
      sampleEntry [CHR ''0'', CHR ''x'', CHR 0xE0] ''s2'' (sampleOp ''0x2'' ''0x2'')]"

section \<open>Evaluation of the conversions\<close>

lemma toDigits_small: "2 \<le> r \<Longrightarrow> r \<le> 36 \<Longrightarrow> n < r \<Longrightarrow> toDigits r n = [digitChar n]"
  by simp

lemma toDigits_step:
  "2 \<le> r \<Longrightarrow> r \<le> 36 \<Longrightarrow> \<not> n < r \<Longrightarrow>
   toDigits r n = toDigits r (n div r) @ [digitChar (n mod r)]"
  by simp

declare toDigits.simps [simp del]

lemmas conv_simps =
  StringToBigInt_def trim_def isWhiteSpace_def parseRadix_def digitVal_def BigInt_def
  bigint_gt_string_def gweiToWeiHex_def toString_def toDigits_small toDigits_step digitChar_def

lemma StringToBigInt_0x0: "StringToBigInt ''0x0'' = Some 0"
  by (simp add: conv_simps)

section \<open>Policy validation: properties\<close>

text \<open>
  An operation whose numeric fields convert is validated without an exception, and the
  only messages \<^verbatim>\<open>validate\<close> ever produces are the call-gas one and the init-code one.
\<close>

lemma validate_wellFormed:
  "wellFormed uo \<Longrightarrow> \<exists>errs. validate pol uo = Inr errs"
  by (auto simp: wellFormed_def validate_def BigInt_def Let_def)

lemma validate_messages:
  assumes "validate pol uo = Inr errs" and "m \<in> set errs"
  shows "(\<exists>g. m = ''callGasLimit too high: '' @ toString 10 g)
         \<or> m = ''initCode present but signature empty (likely invalid)''"
  using assms
  by (auto simp: validate_def Let_def split: sum.splits if_splits)

text \<open>The result of \<^verbatim>\<open>validate\<close> does not depend on the two fee ceilings of the policy.\<close>

lemma validate_ceilings_unused:
  "validate (pol\<lparr>maxFeeGwei := a, maxPriorityGwei := b\<rparr>) uo = validate pol uo"
  by (simp add: validate_def Let_def split: sum.splits)

text \<open>
  C1. An operation whose maxFeePerGas or maxPriorityFeePerGas exceeds the policy ceiling
  should be reported by \<^verbatim>\<open>validate\<close>. The source does not do so: with the ceilings of
  \<open>POLICY\<close> (200 and 20 gwei) an operation offering 1000 gwei for both fees is validated
  with no violation, and so is an operation offering 10 gwei under a ceiling of 5 gwei.
\<close>

theorem validate_ignores_fee_ceilings:
  "validate POLICY (sampleOp ''0xe8d4a51000'' ''0xe8d4a51000'') = Inr []
   \<and> StringToBigInt ''0xe8d4a51000'' = Some 1000000000000
   \<and> StringToBigInt (gweiToWeiHex (maxFeeGwei POLICY)) = Some 200000000000
   \<and> StringToBigInt (gweiToWeiHex (maxPriorityGwei POLICY)) = Some 20000000000
   \<and> validate (POLICY\<lparr>maxFeeGwei := 5\<rparr>) (sampleOp ''0x2540be400'' ''0x0'') = Inr []
   \<and> StringToBigInt ''0x2540be400'' = Some 10000000000
   \<and> StringToBigInt (gweiToWeiHex 5) = Some 5000000000"
  by (simp add: validate_def POLICY_def sampleOp_def conv_simps)

section \<open>Lower case and equality without regard to case\<close>

text \<open>
  Two characters have the same lower case exactly when they are the same letter, and two
  strings have the same lower case exactly when they are equal without regard to case. So
  the key of the source groups the entries by their target compared in that way.
\<close>

lemmas lower_simps = toLowerCase_def toLowerChar_def char_of_def bit_Suc_0_iff

lemma of_char_toLowerChar:
  "(of_char (toLowerChar c) :: nat) =
     (let n = (of_char c :: nat) in
      if (65 \<le> n \<and> n \<le> 90) \<or> (192 \<le> n \<and> n \<le> 214) \<or> (216 \<le> n \<and> n \<le> 222)
      then n + 32 else n)"
  by (simp add: toLowerChar_def Let_def)

lemma toLowerChar_eq_iff: "toLowerChar c = toLowerChar d \<longleftrightarrow> sameLetter c d"
proof -
  have "toLowerChar c = toLowerChar d \<longleftrightarrow>
      (of_char (toLowerChar c) :: nat) = of_char (toLowerChar d)"
    by simp
  also have "\<dots> \<longleftrightarrow> sameLetter c d"
    unfolding of_char_toLowerChar sameLetter_def Let_def
    by (auto simp: min_def max_def)
  finally show ?thesis .
qed

lemma toLowerCase_eq_iff: "toLowerCase s = toLowerCase t \<longleftrightarrow> sameIgnoringCase s t"
proof -
  have "toLowerCase s = toLowerCase t \<longleftrightarrow> list_all2 (=) (map toLowerChar s) (map toLowerChar t)"
    by (simp add: toLowerCase_def list_all2_eq)
  also have "\<dots> \<longleftrightarrow> list_all2 (\<lambda>c d. toLowerChar c = toLowerChar d) s t"
    by (simp add: list_all2_map1 list_all2_map2)
  finally show ?thesis
    by (simp add: sameIgnoringCase_def toLowerChar_eq_iff)
qed

lemma groupKey_eq_iff: "groupKey e = toLowerCase T \<longleftrightarrow> sameIgnoringCase (target e) T"
  by (simp add: groupKey_def toLowerCase_eq_iff)

lemma same_group_iff: "groupKey e = groupKey e' \<longleftrightarrow> sameIgnoringCase (target e) (target e')"
  by (simp add: groupKey_def toLowerCase_eq_iff)

section \<open>Grouping: properties\<close>

text \<open>
  The groups have pairwise different keys, the group of a key holds the entries with that
  key in queue order, and the groups together hold every entry once.
\<close>

lemma groupLoop_distinct:
  "distinct (map fst m) \<Longrightarrow> distinct (map fst (groupLoop m items))"
  by (induction items arbitrary: m) (simp_all add: Let_def distinct_update)

lemma groupLoop_map_of:
  "map_of (groupLoop m items) k =
     (case map_of m k of
        None \<Rightarrow> (if filter (\<lambda>e. groupKey e = k) items = [] then None
                 else Some (filter (\<lambda>e. groupKey e = k) items))
      | Some a \<Rightarrow> Some (a @ filter (\<lambda>e. groupKey e = k) items))"
proof (induction items arbitrary: m)
  case Nil
  show ?case by (simp split: option.split)
next
  case (Cons it items)
  show ?case
    by (simp add: Let_def Cons.IH update_conv' groupKey_def split: option.split)
qed

lemma update_concat_mset:
  "mset (concat (map snd (AList.update k ((case map_of m k of None \<Rightarrow> [] | Some a \<Rightarrow> a) @ [x]) m)))
     = mset (concat (map snd m)) + {#x#}"
  by (induction m) auto

lemma groupLoop_mset:
  "mset (concat (map snd (groupLoop m items))) = mset (concat (map snd m)) + mset items"
  by (induction items arbitrary: m) (simp_all add: Let_def update_concat_mset)

lemma groupByTarget_mset: "mset (concat (map snd (groupByTarget q))) = mset q"
  by (simp add: groupByTarget_def groupLoop_mset)

lemma groupByTarget_distinct: "distinct (map fst (groupByTarget q))"
  by (simp add: groupByTarget_def groupLoop_distinct)

lemma groupByTarget_map_of:
  "map_of (groupByTarget q) k =
     (if filter (\<lambda>e. groupKey e = k) q = [] then None else Some (filter (\<lambda>e. groupKey e = k) q))"
  by (simp add: groupByTarget_def groupLoop_map_of)

lemma groupByTarget_member:
  assumes "(k, its) \<in> set (groupByTarget q)"
  shows "its = filter (\<lambda>e. groupKey e = k) q \<and> its \<noteq> []"
proof -
  have "map_of (groupByTarget q) k = Some its"
    using assms groupByTarget_distinct by (simp add: map_of_is_SomeI)
  then show ?thesis
    by (simp add: groupByTarget_map_of split: if_splits)
qed


section \<open>Batch selection: properties\<close>

lemma pickedLoop_blocked:
  "tgt \<in> blockedTargets pol \<Longrightarrow> pickedLoop pol tgt picked (ts, kp) = Inr (ts, kp @ picked)"
  by (induction picked arbitrary: kp) simp_all

lemma pickedLoop_open:
  assumes "tgt \<notin> blockedTargets pol" and "\<forall>e\<in>set picked. wellFormed (op e)"
  shows "pickedLoop pol tgt picked (ts, kp) = Inr (ts @ map op (filter (admitted pol) picked), kp)"
  using assms(2)
proof (induction picked arbitrary: ts)
  case Nil
  show ?case by simp
next
  case (Cons it picked)
  from Cons.prems have "wellFormed (op it)" by simp
  then obtain errs where v: "validate pol (op it) = Inr errs"
    using validate_wellFormed by blast
  from Cons.prems have rest: "\<forall>e\<in>set picked. wellFormed (op e)" by simp
  show ?case
    using assms(1) v Cons.IH [OF rest] by (simp add: admitted_def)
qed

lemma targetLoop_char:
  assumes "\<forall>g\<in>set gs. \<forall>e\<in>set (snd g). wellFormed (op e)"
  shows "targetLoop pol cap gs (ts, kp) =
           Inr (ts @ concat (map (sendPart pol cap) gs), kp @ concat (map (keepPart pol cap) gs))"
  using assms
proof (induction gs arbitrary: ts kp)
  case Nil
  show ?case by simp
next
  case (Cons g gs)
  obtain tgt items where g: "g = (tgt, items)" by (cases g)
  have wf_picked: "\<forall>e\<in>set (take (nat (max 0 cap)) items). wellFormed (op e)"
    using Cons.prems g by (auto dest: in_set_takeD)
  have rest: "\<forall>g\<in>set gs. \<forall>e\<in>set (snd g). wellFormed (op e)"
    using Cons.prems by simp
  show ?case
  proof (cases "tgt \<in> blockedTargets pol")
    case True
    then show ?thesis
      using g Cons.IH [OF rest] by (simp add: pickedLoop_blocked sendPart_def keepPart_def Let_def)
  next
    case False
    then show ?thesis
      using g Cons.IH [OF rest] pickedLoop_open [OF False wf_picked]
      by (simp add: sendPart_def keepPart_def Let_def)
  qed
qed


lemma select_char:
  assumes "\<forall>e\<in>set q. wellFormed (op e)"
  shows "select pol cap q =
           Inr (concat (map (sendPart pol cap) (groupByTarget q)),
                concat (map (keepPart pol cap) (groupByTarget q)))"
proof -
  have "\<forall>g\<in>set (groupByTarget q). \<forall>e\<in>set (snd g). wellFormed (op e)"
  proof (intro ballI)
    fix g e assume g: "g \<in> set (groupByTarget q)" and e: "e \<in> set (snd g)"
    from g have "snd g = filter (\<lambda>e. groupKey e = fst g) q"
      using groupByTarget_member [of "fst g" "snd g" q] by simp
    with e have "e \<in> set q" by simp
    with assms show "wellFormed (op e)" by blast
  qed
  from targetLoop_char [OF this, of pol cap "[]" "[]"] show ?thesis
    by (simp add: select_def)
qed

lemma groups_keyed:
  "g \<in> set (groupByTarget q) \<Longrightarrow> e \<in> set (snd g) \<Longrightarrow> groupKey e = fst g"
  using groupByTarget_member [of "fst g" "snd g" q] by auto

lemma sendPart_sentEntries:
  assumes "\<forall>g\<in>set gs. \<forall>e\<in>set (snd g). groupKey e = fst g"
  shows "concat (map (sendPart pol cap) gs) =
           map op (filter (\<lambda>e. \<not> blocked pol e \<and> admitted pol e)
             (concat (map (\<lambda>(t, items). take (nat (max 0 cap)) items) gs)))"
  using assms
proof (induction gs)
  case Nil
  show ?case by simp
next
  case (Cons g gs)
  have keyed: "\<forall>e\<in>set (take (nat (max 0 cap)) (snd g)). groupKey e = fst g"
    using Cons.prems by (auto dest: in_set_takeD)
  have here: "sendPart pol cap g =
      map op (filter (\<lambda>e. \<not> blocked pol e \<and> admitted pol e) (take (nat (max 0 cap)) (snd g)))"
  proof (cases "fst g \<in> blockedTargets pol")
    case True
    with keyed have "filter (\<lambda>e. \<not> blocked pol e \<and> admitted pol e) (take (nat (max 0 cap)) (snd g)) = []"
      by (auto simp: blocked_def filter_empty_conv)
    with True show ?thesis by (simp add: sendPart_def)
  next
    case False
    with keyed have "filter (\<lambda>e. \<not> blocked pol e \<and> admitted pol e) (take (nat (max 0 cap)) (snd g))
        = filter (admitted pol) (take (nat (max 0 cap)) (snd g))"
      by (intro filter_cong) (auto simp: blocked_def)
    with False show ?thesis by (simp add: sendPart_def)
  qed
  from Cons.prems have "\<forall>g\<in>set gs. \<forall>e\<in>set (snd g). groupKey e = fst g" by simp
  from Cons.IH [OF this] here show ?case
    by (simp add: case_prod_beta)
qed

lemma select_toSend:
  assumes "\<forall>e\<in>set q. wellFormed (op e)"
  shows "\<exists>keep. select pol cap q = Inr (map op (sentEntries pol cap q), keep)
           \<and> keep = concat (map (keepPart pol cap) (groupByTarget q))"
  using select_char [OF assms, of pol cap]
    sendPart_sentEntries [of "groupByTarget q" pol cap] groups_keyed [of _ q]
  by (simp add: sentEntries_def candidates_def)


lemma pickedLoop_result:
  assumes "tgt \<notin> blockedTargets pol"
    and "pickedLoop pol tgt picked (ts, kp) = Inr (ts', kp')"
  shows "ts' = ts @ map op (filter (admitted pol) picked) \<and> kp' = kp
         \<and> (\<forall>e\<in>set picked. \<exists>errs. validate pol (op e) = Inr errs)"
  using assms(2)
proof (induction picked arbitrary: ts)
  case Nil
  then show ?case by simp
next
  case (Cons it picked)
  show ?case
  proof (cases "validate pol (op it)")
    case (Inl e)
    with Cons.prems assms(1) show ?thesis by simp
  next
    case (Inr errs)
    show ?thesis
    proof (cases "errs = []")
      case True
      with Cons.prems assms(1) Inr
      have "pickedLoop pol tgt picked (ts @ [op it], kp) = Inr (ts', kp')" by simp
      from Cons.IH [OF this] Inr True show ?thesis by (simp add: admitted_def)
    next
      case False
      with Cons.prems assms(1) Inr
      have "pickedLoop pol tgt picked (ts, kp) = Inr (ts', kp')" by simp
      from Cons.IH [OF this] Inr False show ?thesis by (simp add: admitted_def)
    qed
  qed
qed

lemma targetLoop_result:
  assumes "targetLoop pol cap gs (ts, kp) = Inr (ts', kp')"
  shows "ts' = ts @ concat (map (sendPart pol cap) gs)
         \<and> kp' = kp @ concat (map (keepPart pol cap) gs)
         \<and> (\<forall>g\<in>set gs. fst g \<notin> blockedTargets pol \<longrightarrow>
               (\<forall>e\<in>set (take (nat (max 0 cap)) (snd g)). \<exists>errs. validate pol (op e) = Inr errs))"
  using assms
proof (induction gs arbitrary: ts kp)
  case Nil
  then show ?case by simp
next
  case (Cons g gs)
  obtain tgt items where g: "g = (tgt, items)" by (cases g)
  let ?picked = "take (nat (max 0 cap)) items" and ?rest = "drop (nat (max 0 cap)) items"
  show ?case
  proof (cases "tgt \<in> blockedTargets pol")
    case True
    with Cons.prems g
    have "targetLoop pol cap gs (ts, (kp @ ?picked) @ ?rest) = Inr (ts', kp')"
      by (simp add: pickedLoop_blocked Let_def)
    from Cons.IH [OF this] True g show ?thesis
      by (simp add: sendPart_def keepPart_def)
  next
    case False
    show ?thesis
    proof (cases "pickedLoop pol tgt ?picked (ts, kp)")
      case (Inl e)
      with Cons.prems g show ?thesis by (simp add: Let_def)
    next
      case (Inr r)
      obtain ts1 kp1 where r: "r = (ts1, kp1)" by (cases r)
      from pickedLoop_result [OF False Inr [unfolded r]]
      have ts1: "ts1 = ts @ map op (filter (admitted pol) ?picked)" and kp1: "kp1 = kp"
        and ok: "\<forall>e\<in>set ?picked. \<exists>errs. validate pol (op e) = Inr errs"
        by simp_all
      from Cons.prems g Inr r
      have "targetLoop pol cap gs (ts1, kp1 @ ?rest) = Inr (ts', kp')"
        by (simp add: Let_def)
      from Cons.IH [OF this] False g ts1 kp1 ok show ?thesis
        by (simp add: sendPart_def keepPart_def)
    qed
  qed
qed

lemma candidates_member:
  "e \<in> set (candidates cap q) \<Longrightarrow>
   \<exists>g\<in>set (groupByTarget q). e \<in> set (take (nat (max 0 cap)) (snd g)) \<and> groupKey e = fst g"
proof -
  assume "e \<in> set (candidates cap q)"
  then obtain g where g: "g \<in> set (groupByTarget q)"
    and e: "e \<in> set (take (nat (max 0 cap)) (snd g))"
    by (auto simp: candidates_def)
  from e have "e \<in> set (snd g)" by (rule in_set_takeD)
  with g have "groupKey e = fst g" by (rule groups_keyed)
  with g e show ?thesis by blast
qed

lemma select_result:
  assumes "select pol cap q = Inr (toSend, keep)"
  shows "toSend = map op (sentEntries pol cap q)
         \<and> keep = concat (map (keepPart pol cap) (groupByTarget q))
         \<and> (\<forall>e\<in>set (candidates cap q). \<not> blocked pol e \<longrightarrow>
               (\<exists>errs. validate pol (op e) = Inr errs))"
proof -
  from assms have "targetLoop pol cap (groupByTarget q) ([], []) = Inr (toSend, keep)"
    by (simp add: select_def)
  from targetLoop_result [OF this]
  have ts: "toSend = concat (map (sendPart pol cap) (groupByTarget q))"
    and kp: "keep = concat (map (keepPart pol cap) (groupByTarget q))"
    and ok: "\<forall>g\<in>set (groupByTarget q). fst g \<notin> blockedTargets pol \<longrightarrow>
               (\<forall>e\<in>set (take (nat (max 0 cap)) (snd g)). \<exists>errs. validate pol (op e) = Inr errs)"
    by simp_all
  have "toSend = map op (sentEntries pol cap q)"
    using ts sendPart_sentEntries [of "groupByTarget q" pol cap] groups_keyed [of _ q]
    by (simp add: sentEntries_def candidates_def)
  moreover have "\<forall>e\<in>set (candidates cap q). \<not> blocked pol e \<longrightarrow>
               (\<exists>errs. validate pol (op e) = Inr errs)"
  proof (intro ballI impI)
    fix e assume "e \<in> set (candidates cap q)" and nb: "\<not> blocked pol e"
    then obtain g where "g \<in> set (groupByTarget q)"
      and "e \<in> set (take (nat (max 0 cap)) (snd g))" and "groupKey e = fst g"
      using candidates_member by blast
    with ok nb show "\<exists>errs. validate pol (op e) = Inr errs"
      by (auto simp: blocked_def)
  qed
  ultimately show ?thesis using kp by simp
qed

lemma keepPart_mset:
  assumes "\<forall>g\<in>set gs. \<forall>e\<in>set (snd g). groupKey e = fst g"
  shows "mset (concat (map (keepPart pol cap) gs)) =
           mset (filter (blocked pol) (concat (map (\<lambda>(t, items). take (nat (max 0 cap)) items) gs)))
           + mset (concat (map (\<lambda>(t, items). drop (nat (max 0 cap)) items) gs))"
  using assms
proof (induction gs)
  case Nil
  show ?case by simp
next
  case (Cons g gs)
  have keyed: "\<forall>e\<in>set (take (nat (max 0 cap)) (snd g)). groupKey e = fst g"
    using Cons.prems by (auto dest: in_set_takeD)
  have here: "(if fst g \<in> blockedTargets pol then take (nat (max 0 cap)) (snd g) else [])
      = filter (blocked pol) (take (nat (max 0 cap)) (snd g))"
  proof (cases "fst g \<in> blockedTargets pol")
    case True
    with keyed have "filter (blocked pol) (take (nat (max 0 cap)) (snd g)) = take (nat (max 0 cap)) (snd g)"
      by (auto simp: blocked_def filter_id_conv)
    with True show ?thesis by simp
  next
    case False
    with keyed have "filter (blocked pol) (take (nat (max 0 cap)) (snd g)) = []"
      by (auto simp: blocked_def filter_empty_conv)
    with False show ?thesis by simp
  qed
  from Cons.prems have "\<forall>g\<in>set gs. \<forall>e\<in>set (snd g). groupKey e = fst g" by simp
  from Cons.IH [OF this] here show ?case
    by (simp add: case_prod_beta keepPart_def)
qed

lemma take_drop_groups_mset:
  "mset (concat (map (\<lambda>(t, items). take n items) gs)) + mset (concat (map (\<lambda>(t, items). drop n items) gs))
     = mset (concat (map snd gs))"
proof (induction gs)
  case Nil
  show ?case by simp
next
  case (Cons g gs)
  have "mset (take n (snd g)) + mset (drop n (snd g)) = mset (snd g)"
    by (metis append_take_drop_id mset_append)
  with Cons.IH show ?case
    by (simp add: case_prod_beta ac_simps)
qed

lemma candidates_rateLimited_mset:
  "mset (candidates cap q) + mset (rateLimited cap q) = mset q"
  by (simp add: candidates_def rateLimited_def take_drop_groups_mset groupByTarget_mset)

lemma three_way_mset:
  "mset (filter (\<lambda>e. \<not> b e \<and> a e) xs) + mset (filter b xs) + mset (filter (\<lambda>e. \<not> b e \<and> \<not> a e) xs)
     = mset xs"
  by (induction xs) auto

lemma filter_key_concat:
  assumes "distinct (map fst gs)"
    and "\<forall>g\<in>set gs. \<forall>e\<in>set (snd g). groupKey e = fst g"
    and "\<And>g. set (f g) \<subseteq> set (snd g)"
  shows "filter (\<lambda>e. groupKey e = k) (concat (map f gs)) =
           (case map_of gs k of None \<Rightarrow> [] | Some items \<Rightarrow> f (k, items))"
  using assms(1,2)
proof (induction gs)
  case Nil
  show ?case by simp
next
  case (Cons g gs)
  have sub: "\<forall>e\<in>set (f g). groupKey e = fst g"
    using Cons.prems(2) assms(3) [of g] by auto
  from Cons.prems have d: "distinct (map fst gs)"
    and r: "\<forall>g\<in>set gs. \<forall>e\<in>set (snd g). groupKey e = fst g" by simp_all
  note IH = Cons.IH [OF d r]
  show ?case
  proof (cases "fst g = k")
    case True
    with sub have 1: "filter (\<lambda>e. groupKey e = k) (f g) = f g"
      by (auto simp: filter_id_conv)
    from True Cons.prems(1) have "k \<notin> fst ` set gs" by auto
    then have 2: "map_of gs k = None" by (simp add: map_of_eq_None_iff)
    from True have 3: "g = (k, snd g)" by (cases g) simp
    show ?thesis
      using IH 1 2 True 3 by (cases g) auto
  next
    case False
    with sub have 1: "filter (\<lambda>e. groupKey e = k) (f g) = []"
      by (auto simp: filter_empty_conv)
    show ?thesis
      using IH 1 False by (cases g) auto
  qed
qed


lemma keep_mset:
  "mset (concat (map (keepPart pol cap) (groupByTarget q))) =
     mset (filter (blocked pol) (candidates cap q)) + mset (rateLimited cap q)"
  using keepPart_mset [of "groupByTarget q" pol cap] groups_keyed [of _ q]
  by (simp add: candidates_def rateLimited_def)

lemma partition_mset:
  "mset (sentEntries pol cap q) + mset (concat (map (keepPart pol cap) (groupByTarget q)))
     + mset (droppedEntries pol cap q) = mset q"
proof -
  have "mset (sentEntries pol cap q) + mset (filter (blocked pol) (candidates cap q))
      + mset (droppedEntries pol cap q) = mset (candidates cap q)"
    unfolding sentEntries_def droppedEntries_def by (rule three_way_mset)
  then show ?thesis
    using candidates_rateLimited_mset [of cap q] by (simp add: keep_mset ac_simps)
qed

lemma mset_sum_distinct:
  assumes "mset xs + mset ys + mset zs = mset q" and "distinct q"
  shows "set xs \<inter> set ys = {} \<and> set xs \<inter> set zs = {} \<and> set ys \<inter> set zs = {}
         \<and> set xs \<union> set ys \<union> set zs = set q"
proof -
  have "mset (xs @ ys @ zs) = mset q" using assms(1) by (simp add: ac_simps)
  then have d: "distinct (xs @ ys @ zs)" and s: "set (xs @ ys @ zs) = set q"
    using assms(2) by (metis mset_eq_imp_distinct_iff, metis mset_eq_setD)
  from d s show ?thesis by auto
qed

text \<open>
  C3. Batch selection returns whenever the numeric fields of every queued operation
  convert, and whenever it returns, every entry of the queue has exactly one of three
  outcomes: sent (its operation is in \<^verbatim>\<open>toSend\<close>, in order), retained (in \<^verbatim>\<open>keep\<close>) or dropped.
  As multisets the three make up the queue; for a queue without equal entries the three
  sets are pairwise disjoint and their union is the queue. The retained entries are the
  candidates of blocked targets and the entries beyond the cap; the dropped ones are
  candidates with violations; every entry of a blocked target is retained.
\<close>

theorem select_partitions_queue:
  "((\<forall>e\<in>set q. wellFormed (op e)) \<longrightarrow> (\<exists>toSend keep. select pol cap q = Inr (toSend, keep)))
   \<and> (\<forall>toSend keep. select pol cap q = Inr (toSend, keep) \<longrightarrow>
         toSend = map op (sentEntries pol cap q)
         \<and> mset (sentEntries pol cap q) + mset keep + mset (droppedEntries pol cap q) = mset q
         \<and> mset keep = mset (filter (blocked pol) (candidates cap q)) + mset (rateLimited cap q)
         \<and> (\<forall>e\<in>set (droppedEntries pol cap q). \<exists>errs. validate pol (op e) = Inr errs \<and> errs \<noteq> [])
         \<and> (\<forall>e. blocked pol e \<longrightarrow> count (mset keep) e = count (mset q) e)
         \<and> (distinct q \<longrightarrow>
               set (sentEntries pol cap q) \<inter> set keep = {}
               \<and> set (sentEntries pol cap q) \<inter> set (droppedEntries pol cap q) = {}
               \<and> set keep \<inter> set (droppedEntries pol cap q) = {}
               \<and> set (sentEntries pol cap q) \<union> set keep \<union> set (droppedEntries pol cap q) = set q))"
proof (intro conjI allI impI)
  assume "\<forall>e\<in>set q. wellFormed (op e)"
  from select_toSend [OF this, of pol cap]
  show "\<exists>toSend keep. select pol cap q = Inr (toSend, keep)" by blast
next
  fix toSend keep
  assume sel: "select pol cap q = Inr (toSend, keep)"
  from select_result [OF sel]
  have ts: "toSend = map op (sentEntries pol cap q)"
    and keep: "keep = concat (map (keepPart pol cap) (groupByTarget q))"
    and ok: "\<forall>e\<in>set (candidates cap q). \<not> blocked pol e \<longrightarrow>
               (\<exists>errs. validate pol (op e) = Inr errs)"
    by simp_all
  show "toSend = map op (sentEntries pol cap q)" by (rule ts)
  show part: "mset (sentEntries pol cap q) + mset keep + mset (droppedEntries pol cap q) = mset q"
    unfolding keep by (rule partition_mset)
  show "mset keep = mset (filter (blocked pol) (candidates cap q)) + mset (rateLimited cap q)"
    unfolding keep by (rule keep_mset)
  show "\<forall>e\<in>set (droppedEntries pol cap q). \<exists>errs. validate pol (op e) = Inr errs \<and> errs \<noteq> []"
  proof
    fix e assume "e \<in> set (droppedEntries pol cap q)"
    then have c: "e \<in> set (candidates cap q)" and nb: "\<not> blocked pol e" and na: "\<not> admitted pol e"
      by (simp_all add: droppedEntries_def)
    from ok c nb obtain errs where "validate pol (op e) = Inr errs" by blast
    with na show "\<exists>errs. validate pol (op e) = Inr errs \<and> errs \<noteq> []"
      by (simp add: admitted_def)
  qed
  show "count (mset keep) e = count (mset q) e" if b: "blocked pol e" for e
  proof -
    have c1: "count (mset (sentEntries pol cap q)) e = 0"
      and c2: "count (mset (droppedEntries pol cap q)) e = 0"
      using b by (simp_all add: sentEntries_def droppedEntries_def)
    have "count (mset (sentEntries pol cap q) + mset keep + mset (droppedEntries pol cap q)) e
        = count (mset q) e" by (simp only: part)
    then have "count (mset (sentEntries pol cap q)) e + count (mset keep) e
        + count (mset (droppedEntries pol cap q)) e = count (mset q) e"
      by (simp only: count_union)
    with c1 c2 show ?thesis by linarith
  qed
  assume d: "distinct q"
  from mset_sum_distinct [OF part d]
  show "set (sentEntries pol cap q) \<inter> set keep = {}"
    and "set (sentEntries pol cap q) \<inter> set (droppedEntries pol cap q) = {}"
    and "set keep \<inter> set (droppedEntries pol cap q) = {}"
    and "set (sentEntries pol cap q) \<union> set keep \<union> set (droppedEntries pol cap q) = set q"
    by simp_all
qed

text \<open>A queue of four entries, under a cap of 1 and with the target \<^verbatim>\<open>0xcc\<close> blocked.\<close>

lemma sampleQueue_groups:
  "groupByTarget sampleQueue =
     [(''0xaa'', [sampleEntry ''0xAA'' ''s1'' (sampleOp ''0x0'' ''0x0''),
                  sampleEntry ''0xaa'' ''s2'' (sampleOp ''0x1'' ''0x1'')]),
      (''0xbb'', [sampleEntry ''0xbb'' ''s3'' unsignedOp]),
      (''0xcc'', [sampleEntry ''0xCC'' ''s4'' (sampleOp ''0x2'' ''0x2'')])]"
  by (simp add: sampleQueue_def groupByTarget_def Let_def lower_simps
      sampleEntry_def)

lemmas sample_simps =
  samplePolicy_def unsignedOp_def validate_def conv_simps sampleOp_def sampleEntry_def POLICY_def

lemma sampleQueue_select:
  "select samplePolicy 1 sampleQueue =
     Inr ([sampleOp ''0x0'' ''0x0''],
          [sampleEntry ''0xaa'' ''s2'' (sampleOp ''0x1'' ''0x1''),
           sampleEntry ''0xCC'' ''s4'' (sampleOp ''0x2'' ''0x2'')])"
  by (simp add: select_def sampleQueue_groups sample_simps)

lemma sampleQueue_wellFormed: "\<forall>e\<in>set sampleQueue. wellFormed (op e)"
  by (simp add: sampleQueue_def wellFormed_def sample_simps)

lemma sampleQueue_dropped:
  "droppedEntries samplePolicy 1 sampleQueue = [sampleEntry ''0xbb'' ''s3'' unsignedOp]"
  by (simp add: droppedEntries_def candidates_def sampleQueue_groups blocked_def admitted_def
      groupKey_def lower_simps sample_simps)

lemma sampleQueue_sent:
  "sentEntries samplePolicy 1 sampleQueue = [sampleEntry ''0xAA'' ''s1'' (sampleOp ''0x0'' ''0x0'')]"
  by (simp add: sentEntries_def candidates_def sampleQueue_groups blocked_def admitted_def
      groupKey_def lower_simps sample_simps)

theorem select_partitions_queue_witness:
  "list_all (\<lambda>e. wellFormed (op e)) sampleQueue
   \<and> select samplePolicy 1 sampleQueue =
       Inr ([sampleOp ''0x0'' ''0x0''],
            [sampleEntry ''0xaa'' ''s2'' (sampleOp ''0x1'' ''0x1''),
             sampleEntry ''0xCC'' ''s4'' (sampleOp ''0x2'' ''0x2'')])
   \<and> sentEntries samplePolicy 1 sampleQueue = [sampleEntry ''0xAA'' ''s1'' (sampleOp ''0x0'' ''0x0'')]
   \<and> droppedEntries samplePolicy 1 sampleQueue = [sampleEntry ''0xbb'' ''s3'' unsignedOp]
   \<and> mset (sentEntries samplePolicy 1 sampleQueue)
       + mset [sampleEntry ''0xaa'' ''s2'' (sampleOp ''0x1'' ''0x1''),
               sampleEntry ''0xCC'' ''s4'' (sampleOp ''0x2'' ''0x2'')]
       + mset (droppedEntries samplePolicy 1 sampleQueue) = mset sampleQueue"
proof -
  have part: "mset (sentEntries samplePolicy 1 sampleQueue)
       + mset [sampleEntry ''0xaa'' ''s2'' (sampleOp ''0x1'' ''0x1''),
               sampleEntry ''0xCC'' ''s4'' (sampleOp ''0x2'' ''0x2'')]
       + mset (droppedEntries samplePolicy 1 sampleQueue) = mset sampleQueue"
    using select_partitions_queue [of sampleQueue samplePolicy 1] sampleQueue_select by blast
  have wf: "list_all (\<lambda>e. wellFormed (op e)) sampleQueue"
    using sampleQueue_wellFormed by (simp add: list_all_iff)
  from wf sampleQueue_select sampleQueue_sent sampleQueue_dropped part
  show ?thesis by blast
qed

lemma filter_key_candidates:
  "filter (\<lambda>e. groupKey e = k) (candidates cap q)
     = take (nat (max 0 cap)) (filter (\<lambda>e. groupKey e = k) q)"
proof -
  have "filter (\<lambda>e. groupKey e = k) (concat (map (\<lambda>g. take (nat (max 0 cap)) (snd g)) (groupByTarget q)))
      = (case map_of (groupByTarget q) k of None \<Rightarrow> [] | Some items \<Rightarrow> take (nat (max 0 cap)) (snd (k, items)))"
    by (rule filter_key_concat) (auto simp: groupByTarget_distinct groups_keyed dest: in_set_takeD)
  then show ?thesis
    by (simp add: candidates_def case_prod_unfold groupByTarget_map_of split: if_splits)
qed

lemma filter_key_keep:
  "filter (\<lambda>e. groupKey e = k) (concat (map (keepPart pol cap) (groupByTarget q)))
     = filter (blocked pol) (take (nat (max 0 cap)) (filter (\<lambda>e. groupKey e = k) q))
       @ drop (nat (max 0 cap)) (filter (\<lambda>e. groupKey e = k) q)"
proof -
  let ?items = "filter (\<lambda>e. groupKey e = k) q"
  have sub: "\<And>g. set (keepPart pol cap g) \<subseteq> set (snd g)"
    by (auto simp: keepPart_def dest: in_set_takeD in_set_dropD)
  have "filter (\<lambda>e. groupKey e = k) (concat (map (keepPart pol cap) (groupByTarget q)))
      = (case map_of (groupByTarget q) k of None \<Rightarrow> [] | Some items \<Rightarrow> keepPart pol cap (k, items))"
    using groupByTarget_distinct _ sub
    by (rule filter_key_concat) (auto simp: groups_keyed)
  also have "\<dots> = keepPart pol cap (k, ?items)"
    by (simp add: groupByTarget_map_of keepPart_def)
  also have "\<dots> = filter (blocked pol) (take (nat (max 0 cap)) ?items) @ drop (nat (max 0 cap)) ?items"
  proof (cases "k \<in> blockedTargets pol")
    case True
    have "filter (blocked pol) (take (nat (max 0 cap)) ?items) = take (nat (max 0 cap)) ?items"
      using True by (auto simp: filter_id_conv blocked_def dest: in_set_takeD)
    with True show ?thesis by (simp add: keepPart_def)
  next
    case False
    have "filter (blocked pol) (take (nat (max 0 cap)) ?items) = []"
      using False by (auto simp: filter_empty_conv blocked_def dest: in_set_takeD)
    with False show ?thesis by (simp add: keepPart_def)
  qed
  finally show ?thesis .
qed

text \<open>
  C4. For every target \<open>T\<close>, whenever selection returns, the entries considered for sending
  are the first \<open>max 0 cap\<close> of the entries whose target equals \<open>T\<close> without regard to case, in
  queue order: the entries of \<open>T\<close> that are sent are those of them that are admitted, so
  there are at most \<open>max 0 cap\<close>, and all later entries of \<open>T\<close> are retained, whatever their
  content. (The retained entries of \<open>T\<close> are these later ones, after the candidates of \<open>T\<close>
  when \<open>T\<close> is blocked.)
\<close>

theorem rate_limit_fifo_per_target:
  "((\<forall>e\<in>set q. wellFormed (op e)) \<longrightarrow> (\<exists>toSend keep. select pol cap q = Inr (toSend, keep)))
   \<and> (\<forall>toSend keep. select pol cap q = Inr (toSend, keep) \<longrightarrow>
         toSend = map op (sentEntries pol cap q)
         \<and> filter (\<lambda>e. sameIgnoringCase (target e) T) (sentEntries pol cap q)
             = filter (\<lambda>e. \<not> blocked pol e \<and> admitted pol e) (take (nat (max 0 cap)) (queuedFor T q))
         \<and> length (filter (\<lambda>e. sameIgnoringCase (target e) T) (sentEntries pol cap q)) \<le> nat (max 0 cap)
         \<and> filter (\<lambda>e. sameIgnoringCase (target e) T) keep
             = filter (blocked pol) (take (nat (max 0 cap)) (queuedFor T q))
               @ drop (nat (max 0 cap)) (queuedFor T q))"
proof (intro conjI allI impI)
  assume "\<forall>e\<in>set q. wellFormed (op e)"
  from select_toSend [OF this, of pol cap]
  show "\<exists>toSend keep. select pol cap q = Inr (toSend, keep)" by blast
next
  fix toSend keep
  assume sel: "select pol cap q = Inr (toSend, keep)"
  from select_result [OF sel]
  have ts: "toSend = map op (sentEntries pol cap q)"
    and keep: "keep = concat (map (keepPart pol cap) (groupByTarget q))"
    by simp_all
  have key: "(\<lambda>e. sameIgnoringCase (target e) T) = (\<lambda>e. groupKey e = toLowerCase T)"
    by (simp add: groupKey_eq_iff)
  have q: "queuedFor T q = filter (\<lambda>e. groupKey e = toLowerCase T) q"
    by (simp add: queuedFor_def key)
  show "toSend = map op (sentEntries pol cap q)" by (rule ts)
  show sent: "filter (\<lambda>e. sameIgnoringCase (target e) T) (sentEntries pol cap q)
      = filter (\<lambda>e. \<not> blocked pol e \<and> admitted pol e) (take (nat (max 0 cap)) (queuedFor T q))"
  proof -
    have "filter (\<lambda>e. groupKey e = toLowerCase T) (sentEntries pol cap q)
        = filter (\<lambda>e. \<not> blocked pol e \<and> admitted pol e)
            (filter (\<lambda>e. groupKey e = toLowerCase T) (candidates cap q))"
      unfolding sentEntries_def filter_filter by (rule filter_cong) auto
    then show ?thesis by (simp only: filter_key_candidates q key)
  qed
  have "length (filter (\<lambda>e. \<not> blocked pol e \<and> admitted pol e) (take (nat (max 0 cap)) (queuedFor T q)))
      \<le> length (take (nat (max 0 cap)) (queuedFor T q))"
    by (rule length_filter_le)
  then show "length (filter (\<lambda>e. sameIgnoringCase (target e) T) (sentEntries pol cap q)) \<le> nat (max 0 cap)"
    by (simp only: sent) simp
  show "filter (\<lambda>e. sameIgnoringCase (target e) T) keep
      = filter (blocked pol) (take (nat (max 0 cap)) (queuedFor T q)) @ drop (nat (max 0 cap)) (queuedFor T q)"
    unfolding keep q key by (rule filter_key_keep)
qed

lemma sampleQueue_queuedFor:
  "queuedFor ''0xAA'' sampleQueue =
     [sampleEntry ''0xAA'' ''s1'' (sampleOp ''0x0'' ''0x0''),
      sampleEntry ''0xaa'' ''s2'' (sampleOp ''0x1'' ''0x1'')]"
  by (simp add: queuedFor_def sampleQueue_def sameIgnoringCase_def sameLetter_def sampleEntry_def)

theorem rate_limit_fifo_per_target_witness:
  "list_all (\<lambda>e. wellFormed (op e)) sampleQueue
   \<and> queuedFor ''0xAA'' sampleQueue =
       [sampleEntry ''0xAA'' ''s1'' (sampleOp ''0x0'' ''0x0''),
        sampleEntry ''0xaa'' ''s2'' (sampleOp ''0x1'' ''0x1'')]
   \<and> select samplePolicy 1 sampleQueue =
       Inr ([sampleOp ''0x0'' ''0x0''],
            [sampleEntry ''0xaa'' ''s2'' (sampleOp ''0x1'' ''0x1''),
             sampleEntry ''0xCC'' ''s4'' (sampleOp ''0x2'' ''0x2'')])
   \<and> filter (\<lambda>e. sameIgnoringCase (target e) ''0xAA'') (sentEntries samplePolicy 1 sampleQueue)
       = [sampleEntry ''0xAA'' ''s1'' (sampleOp ''0x0'' ''0x0'')]
   \<and> length (filter (\<lambda>e. sameIgnoringCase (target e) ''0xAA'') (sentEntries samplePolicy 1 sampleQueue))
       \<le> nat (max 0 1)
   \<and> filter (\<lambda>e. sameIgnoringCase (target e) ''0xAA'')
         [sampleEntry ''0xaa'' ''s2'' (sampleOp ''0x1'' ''0x1''),
          sampleEntry ''0xCC'' ''s4'' (sampleOp ''0x2'' ''0x2'')]
       = [sampleEntry ''0xaa'' ''s2'' (sampleOp ''0x1'' ''0x1'')]"
proof -
  have sent: "filter (\<lambda>e. sameIgnoringCase (target e) ''0xAA'') (sentEntries samplePolicy 1 sampleQueue)
        = filter (\<lambda>e. \<not> blocked samplePolicy e \<and> admitted samplePolicy e)
            (take (nat (max 0 1)) (queuedFor ''0xAA'' sampleQueue))"
    and bound: "length (filter (\<lambda>e. sameIgnoringCase (target e) ''0xAA'')
          (sentEntries samplePolicy 1 sampleQueue)) \<le> nat (max 0 1)"
    and kept: "filter (\<lambda>e. sameIgnoringCase (target e) ''0xAA'')
         [sampleEntry ''0xaa'' ''s2'' (sampleOp ''0x1'' ''0x1''),
          sampleEntry ''0xCC'' ''s4'' (sampleOp ''0x2'' ''0x2'')]
        = filter (blocked samplePolicy) (take (nat (max 0 1)) (queuedFor ''0xAA'' sampleQueue))
          @ drop (nat (max 0 1)) (queuedFor ''0xAA'' sampleQueue)"
    using rate_limit_fifo_per_target [of sampleQueue samplePolicy 1 "''0xAA''"] sampleQueue_select
    by blast+
  have wf: "list_all (\<lambda>e. wellFormed (op e)) sampleQueue"
    using sampleQueue_wellFormed by (simp add: list_all_iff)
  have sent': "filter (\<lambda>e. sameIgnoringCase (target e) ''0xAA'') (sentEntries samplePolicy 1 sampleQueue)
       = [sampleEntry ''0xAA'' ''s1'' (sampleOp ''0x0'' ''0x0'')]"
    unfolding sent sampleQueue_queuedFor
    by (simp add: blocked_def admitted_def groupKey_def lower_simps sample_simps)
  have kept': "filter (\<lambda>e. sameIgnoringCase (target e) ''0xAA'')
         [sampleEntry ''0xaa'' ''s2'' (sampleOp ''0x1'' ''0x1''),
          sampleEntry ''0xCC'' ''s4'' (sampleOp ''0x2'' ''0x2'')]
       = [sampleEntry ''0xaa'' ''s2'' (sampleOp ''0x1'' ''0x1'')]"
    unfolding kept sampleQueue_queuedFor
    by (simp add: blocked_def groupKey_def lower_simps sample_simps)
  from wf sampleQueue_queuedFor sampleQueue_select sent' bound kept'
  show ?thesis by blast
qed

text \<open>
  The same on Latin-1 letters: the targets \<^verbatim>\<open>0x\<close> followed by U+00C0 and by U+00E0 are one
  target, so under a cap of 1 the first entry is sent and the second retained; the
  multiplication sign U+00D7 and the division sign U+00F7, 32 apart as well, are not the
  same letter.
\<close>

lemma latin1_targets_share_cap:
  "sameIgnoringCase [CHR ''0'', CHR ''x'', CHR 0xC0] [CHR ''0'', CHR ''x'', CHR 0xE0]
   \<and> \<not> sameIgnoringCase [CHR 0xD7] [CHR 0xF7]
   \<and> toLowerCase [CHR ''0'', CHR ''x'', CHR 0xC0] = [CHR ''0'', CHR ''x'', CHR 0xE0]
   \<and> toLowerCase [CHR 0xD7, CHR 0xDF, CHR 0xFF] = [CHR 0xD7, CHR 0xDF, CHR 0xFF]
   \<and> select POLICY 1 latinQueue =
       Inr ([sampleOp ''0x1'' ''0x1''],
            [sampleEntry [CHR ''0'', CHR ''x'', CHR 0xE0] ''s2'' (sampleOp ''0x2'' ''0x2'')])"
  by (simp add: sameIgnoringCase_def sameLetter_def latinQueue_def select_def groupByTarget_def
      Let_def lower_simps validate_def conv_simps sampleOp_def sampleEntry_def POLICY_def)

section \<open>The retry loop and the run: properties\<close>

text \<open>
  The loop is unfolded one round at a time: a successful submission ends it with the save,
  a failed one adds the submission and the sleep to the trace, and at five failures it ends
  without a save.
\<close>

declare sendLoop.simps [simp del]

lemma sendLoop_success:
  "attempt < 5 \<Longrightarrow> sendBundle (sendReply relay attempt) = Inr res \<Longrightarrow>
   sendLoop args relay toSend keep qfile attempt tr =
     \<lparr>trace = tr @ [SendBundleCall toSend (entrypoint args), SaveQueue keep],
      store = saveQueue keep, outcome = Sent res\<rparr>"
  by (subst sendLoop.simps) simp

lemma sendLoop_failure:
  "attempt < 5 \<Longrightarrow> sendBundle (sendReply relay attempt) = Inl e \<Longrightarrow>
   sendLoop args relay toSend keep qfile attempt tr =
     sendLoop args relay toSend keep qfile (attempt + 1)
       (tr @ [SendBundleCall toSend (entrypoint args), Sleep (min 60 (2 ^ (attempt + 1)))])"
  by (subst sendLoop.simps) (simp add: Let_def)

lemma sendLoop_exhausted:
  "\<not> attempt < 5 \<Longrightarrow>
   sendLoop args relay toSend keep qfile attempt tr = \<lparr>trace = tr, store = qfile, outcome = Exhausted\<rparr>"
  by (subst sendLoop.simps) simp

lemma sendLoop_step:
  assumes "attempt < 5" and "sendBundle (sendReply relay attempt) = Inl e"
    and "next = attempt + 1" and "wait = min 60 (2 ^ next)"
    and "tr' = tr @ [SendBundleCall toSend (entrypoint args), Sleep wait]"
  shows "sendLoop args relay toSend keep qfile attempt tr =
           sendLoop args relay toSend keep qfile next tr'"
  using assms by (simp add: sendLoop_failure)

lemma sendLoop_four_failures:
  assumes "\<forall>k<4. \<exists>e. sendBundle (sendReply relay k) = Inl e"
  shows "sendLoop args relay toSend keep qfile 0 tr =
           sendLoop args relay toSend keep qfile 4
             (tr @ [SendBundleCall toSend (entrypoint args), Sleep 2,
                    SendBundleCall toSend (entrypoint args), Sleep 4,
                    SendBundleCall toSend (entrypoint args), Sleep 8,
                    SendBundleCall toSend (entrypoint args), Sleep 16])"
proof -
  let ?S = "SendBundleCall toSend (entrypoint args)"
  obtain e0 where f0: "sendBundle (sendReply relay 0) = Inl e0"
    using assms [rule_format, of 0] by auto
  obtain e1 where f1: "sendBundle (sendReply relay 1) = Inl e1"
    using assms [rule_format, of 1] by auto
  obtain e2 where f2: "sendBundle (sendReply relay 2) = Inl e2"
    using assms [rule_format, of 2] by auto
  obtain e3 where f3: "sendBundle (sendReply relay 3) = Inl e3"
    using assms [rule_format, of 3] by auto
  have "sendLoop args relay toSend keep qfile 0 tr =
      sendLoop args relay toSend keep qfile 1 (tr @ [?S, Sleep 2])"
    by (rule sendLoop_step [OF _ f0]) simp_all
  also have "\<dots> = sendLoop args relay toSend keep qfile 2 (tr @ [?S, Sleep 2, ?S, Sleep 4])"
    by (rule sendLoop_step [OF _ f1]) simp_all
  also have "\<dots> = sendLoop args relay toSend keep qfile 3
      (tr @ [?S, Sleep 2, ?S, Sleep 4, ?S, Sleep 8])"
    by (rule sendLoop_step [OF _ f2]) simp_all
  also have "\<dots> = sendLoop args relay toSend keep qfile 4
      (tr @ [?S, Sleep 2, ?S, Sleep 4, ?S, Sleep 8, ?S, Sleep 16])"
    by (rule sendLoop_step [OF _ f3]) simp_all
  finally show ?thesis .
qed

lemma sendLoop_five_failures:
  assumes "\<forall>k<5. \<exists>e. sendBundle (sendReply relay k) = Inl e"
  shows "sendLoop args relay toSend keep qfile 0 tr =
           \<lparr>trace = tr @ [SendBundleCall toSend (entrypoint args), Sleep 2,
                    SendBundleCall toSend (entrypoint args), Sleep 4,
                    SendBundleCall toSend (entrypoint args), Sleep 8,
                    SendBundleCall toSend (entrypoint args), Sleep 16,
                    SendBundleCall toSend (entrypoint args), Sleep 32],
            store = qfile, outcome = Exhausted\<rparr>"
proof -
  let ?S = "SendBundleCall toSend (entrypoint args)"
  from assms have four: "\<forall>k<4. \<exists>e. sendBundle (sendReply relay k) = Inl e" by auto
  obtain e4 where f4: "sendBundle (sendReply relay 4) = Inl e4"
    using assms [rule_format, of 4] by auto
  have "sendLoop args relay toSend keep qfile 0 tr =
      sendLoop args relay toSend keep qfile 4
        (tr @ [?S, Sleep 2, ?S, Sleep 4, ?S, Sleep 8, ?S, Sleep 16])"
    by (rule sendLoop_four_failures [OF four])
  also have "\<dots> = sendLoop args relay toSend keep qfile 5
      (tr @ [?S, Sleep 2, ?S, Sleep 4, ?S, Sleep 8, ?S, Sleep 16, ?S, Sleep 32])"
    by (rule sendLoop_step [OF _ f4]) simp_all
  also have "\<dots> = \<lparr>trace = tr @ [?S, Sleep 2, ?S, Sleep 4, ?S, Sleep 8, ?S, Sleep 16, ?S, Sleep 32],
      store = qfile, outcome = Exhausted\<rparr>"
    by (rule sendLoop_exhausted) simp
  finally show ?thesis .
qed

lemma main_reaches_submission:
  assumes "loadQueue qfile = Inr q" and "q \<noteq> []"
    and "select pol (maxPerTargetPerMin args) q = Inr (toSend, keep)" and "toSend \<noteq> []"
    and "estimateFees (gasPriceReply relay) = Inr fees" and "\<not> dryRun args"
  shows "main pol args relay qfile =
           sendLoop args relay (map (setFees fees) toSend) keep qfile 0 [GasPriceCall]"
  using assms by (simp add: main_def)


lemma sample_estimate:
  "estimateFees (Result (JString ''0x64'')) =
     Inr \<lparr>feeMaxFeePerGas = ''0xc8'', feeMaxPriorityFeePerGas = ''0xa''\<rparr>"
  by (simp add: estimateFees_def bigint_div_def conv_simps)

lemma sample_sent: "setFees \<lparr>feeMaxFeePerGas = ''0xc8'', feeMaxPriorityFeePerGas = ''0xa''\<rparr>
    (sampleOp ''0x0'' ''0x0'') = sampleOp ''0xc8'' ''0xa''"
  by (simp add: setFees_def sampleOp_def)

lemma sample_failures: "\<forall>k<n. \<exists>e. sendBundle (sendReply (sampleRelay gp n) k) = Inl e"
  by (simp add: sendBundle_def sampleRelay_def)

text \<open>
  C2. When every one of the five submissions fails, the run leaves the queue file as it
  found it and never writes it. A run that gets as far as submitting makes exactly five
  submissions, sleeps 2, 4, 8, 16 and 32 seconds after them, and ends as exhausted.
\<close>

theorem exhausted_run_leaves_store:
  assumes "\<forall>k<5. \<exists>e. sendBundle (sendReply relay k) = Inl e"
  shows "store (main pol args relay qfile) = qfile
         \<and> (\<forall>items. SaveQueue items \<notin> set (trace (main pol args relay qfile)))
         \<and> (\<forall>q toSend keep fees.
               loadQueue qfile = Inr q \<and> q \<noteq> []
               \<and> select pol (maxPerTargetPerMin args) q = Inr (toSend, keep) \<and> toSend \<noteq> []
               \<and> estimateFees (gasPriceReply relay) = Inr fees \<and> \<not> dryRun args
               \<longrightarrow> main pol args relay qfile =
                     \<lparr>trace = [GasPriceCall,
                        SendBundleCall (map (setFees fees) toSend) (entrypoint args), Sleep 2,
                        SendBundleCall (map (setFees fees) toSend) (entrypoint args), Sleep 4,
                        SendBundleCall (map (setFees fees) toSend) (entrypoint args), Sleep 8,
                        SendBundleCall (map (setFees fees) toSend) (entrypoint args), Sleep 16,
                        SendBundleCall (map (setFees fees) toSend) (entrypoint args), Sleep 32],
                      store = qfile, outcome = Exhausted\<rparr>)"
proof (intro conjI allI impI)
  show "store (main pol args relay qfile) = qfile"
    by (simp add: main_def Let_def sendLoop_five_failures [OF assms] split: sum.splits)
next
  fix items
  show "SaveQueue items \<notin> set (trace (main pol args relay qfile))"
    by (simp add: main_def Let_def sendLoop_five_failures [OF assms] split: sum.splits)
next
  fix q toSend keep fees
  assume "loadQueue qfile = Inr q \<and> q \<noteq> []
      \<and> select pol (maxPerTargetPerMin args) q = Inr (toSend, keep) \<and> toSend \<noteq> []
      \<and> estimateFees (gasPriceReply relay) = Inr fees \<and> \<not> dryRun args"
  then have "main pol args relay qfile =
      sendLoop args relay (map (setFees fees) toSend) keep qfile 0 [GasPriceCall]"
    by (simp add: main_reaches_submission)
  then show "main pol args relay qfile =
      \<lparr>trace = [GasPriceCall,
         SendBundleCall (map (setFees fees) toSend) (entrypoint args), Sleep 2,
         SendBundleCall (map (setFees fees) toSend) (entrypoint args), Sleep 4,
         SendBundleCall (map (setFees fees) toSend) (entrypoint args), Sleep 8,
         SendBundleCall (map (setFees fees) toSend) (entrypoint args), Sleep 16,
         SendBundleCall (map (setFees fees) toSend) (entrypoint args), Sleep 32],
       store = qfile, outcome = Exhausted\<rparr>"
    by (simp add: sendLoop_five_failures [OF assms])
qed

theorem exhausted_run_leaves_store_witness:
  "main samplePolicy (sampleArgs 1 False) (sampleRelay (Result (JString ''0x64'')) 5) (Entries sampleQueue) =
     \<lparr>trace = [GasPriceCall,
        SendBundleCall [sampleOp ''0xc8'' ''0xa''] (entrypoint (sampleArgs 1 False)), Sleep 2,
        SendBundleCall [sampleOp ''0xc8'' ''0xa''] (entrypoint (sampleArgs 1 False)), Sleep 4,
        SendBundleCall [sampleOp ''0xc8'' ''0xa''] (entrypoint (sampleArgs 1 False)), Sleep 8,
        SendBundleCall [sampleOp ''0xc8'' ''0xa''] (entrypoint (sampleArgs 1 False)), Sleep 16,
        SendBundleCall [sampleOp ''0xc8'' ''0xa''] (entrypoint (sampleArgs 1 False)), Sleep 32],
      store = Entries sampleQueue, outcome = Exhausted\<rparr>"
proof -
  have q: "sampleQueue \<noteq> []" by (simp add: sampleQueue_def)
  from exhausted_run_leaves_store [where relay = "sampleRelay (Result (JString ''0x64'')) 5"
      and pol = samplePolicy and args = "sampleArgs 1 False" and qfile = "Entries sampleQueue",
      OF sample_failures]
  have "\<forall>q toSend keep fees.
       loadQueue (Entries sampleQueue) = Inr q \<and> q \<noteq> []
       \<and> select samplePolicy (maxPerTargetPerMin (sampleArgs 1 False)) q = Inr (toSend, keep) \<and> toSend \<noteq> []
       \<and> estimateFees (gasPriceReply (sampleRelay (Result (JString ''0x64'')) 5)) = Inr fees
       \<and> \<not> dryRun (sampleArgs 1 False)
       \<longrightarrow> main samplePolicy (sampleArgs 1 False) (sampleRelay (Result (JString ''0x64'')) 5) (Entries sampleQueue) =
             \<lparr>trace = [GasPriceCall,
                SendBundleCall (map (setFees fees) toSend) (entrypoint (sampleArgs 1 False)), Sleep 2,
                SendBundleCall (map (setFees fees) toSend) (entrypoint (sampleArgs 1 False)), Sleep 4,
                SendBundleCall (map (setFees fees) toSend) (entrypoint (sampleArgs 1 False)), Sleep 8,
                SendBundleCall (map (setFees fees) toSend) (entrypoint (sampleArgs 1 False)), Sleep 16,
                SendBundleCall (map (setFees fees) toSend) (entrypoint (sampleArgs 1 False)), Sleep 32],
              store = Entries sampleQueue, outcome = Exhausted\<rparr>"
    by blast
  from this [rule_format, of sampleQueue "[sampleOp ''0x0'' ''0x0'']" _
      "\<lparr>feeMaxFeePerGas = ''0xc8'', feeMaxPriorityFeePerGas = ''0xa''\<rparr>"]
  show ?thesis
    using q by (simp add: sampleQueue_select sample_estimate sample_sent sampleArgs_def sampleRelay_def)
qed

text \<open>
  C5. When the first four submissions fail and the fifth succeeds, the run sleeps 2, 4, 8
  and 16 seconds after the failures, each wait being \<open>min 60 (2 ^ n)\<close> after the \<open>n\<close>-th
  failure, and writes the retained entries to the queue file once, after the fifth
  submission.
\<close>

theorem fifth_attempt_succeeds:
  assumes "loadQueue qfile = Inr q" and "q \<noteq> []"
    and "select pol (maxPerTargetPerMin args) q = Inr (toSend, keep)" and "toSend \<noteq> []"
    and "estimateFees (gasPriceReply relay) = Inr fees" and "\<not> dryRun args"
    and "\<forall>k<4. \<exists>e. sendBundle (sendReply relay k) = Inl e"
    and "sendBundle (sendReply relay 4) = Inr res"
  shows "main pol args relay qfile =
           \<lparr>trace = [GasPriceCall,
              SendBundleCall (map (setFees fees) toSend) (entrypoint args), Sleep 2,
              SendBundleCall (map (setFees fees) toSend) (entrypoint args), Sleep 4,
              SendBundleCall (map (setFees fees) toSend) (entrypoint args), Sleep 8,
              SendBundleCall (map (setFees fees) toSend) (entrypoint args), Sleep 16,
              SendBundleCall (map (setFees fees) toSend) (entrypoint args), SaveQueue keep],
            store = Entries keep, outcome = Sent res\<rparr>
         \<and> [2, 4, 8, 16 :: nat] = map (\<lambda>n. min 60 (2 ^ n)) [1, 2, 3, 4 :: nat]"
proof -
  have "main pol args relay qfile =
      sendLoop args relay (map (setFees fees) toSend) keep qfile 0 [GasPriceCall]"
    using assms(1-6) by (rule main_reaches_submission)
  also have "\<dots> = sendLoop args relay (map (setFees fees) toSend) keep qfile 4
      ([GasPriceCall] @
       [SendBundleCall (map (setFees fees) toSend) (entrypoint args), Sleep 2,
        SendBundleCall (map (setFees fees) toSend) (entrypoint args), Sleep 4,
        SendBundleCall (map (setFees fees) toSend) (entrypoint args), Sleep 8,
        SendBundleCall (map (setFees fees) toSend) (entrypoint args), Sleep 16])"
    by (rule sendLoop_four_failures [OF assms(7)])
  finally show ?thesis
    using sendLoop_success [OF _ assms(8), of args "map (setFees fees) toSend" keep qfile]
    by (simp add: saveQueue_def)
qed

theorem fifth_attempt_succeeds_witness:
  "main samplePolicy (sampleArgs 1 False) (sampleRelay (Result (JString ''0x64'')) 4) (Entries sampleQueue) =
     \<lparr>trace = [GasPriceCall,
        SendBundleCall [sampleOp ''0xc8'' ''0xa''] (entrypoint (sampleArgs 1 False)), Sleep 2,
        SendBundleCall [sampleOp ''0xc8'' ''0xa''] (entrypoint (sampleArgs 1 False)), Sleep 4,
        SendBundleCall [sampleOp ''0xc8'' ''0xa''] (entrypoint (sampleArgs 1 False)), Sleep 8,
        SendBundleCall [sampleOp ''0xc8'' ''0xa''] (entrypoint (sampleArgs 1 False)), Sleep 16,
        SendBundleCall [sampleOp ''0xc8'' ''0xa''] (entrypoint (sampleArgs 1 False)),
        SaveQueue [sampleEntry ''0xaa'' ''s2'' (sampleOp ''0x1'' ''0x1''),
                   sampleEntry ''0xCC'' ''s4'' (sampleOp ''0x2'' ''0x2'')]],
      store = Entries [sampleEntry ''0xaa'' ''s2'' (sampleOp ''0x1'' ''0x1''),
                       sampleEntry ''0xCC'' ''s4'' (sampleOp ''0x2'' ''0x2'')],
      outcome = Sent (JString ''0xabc'')\<rparr>"
proof -
  have 1: "loadQueue (Entries sampleQueue) = Inr sampleQueue" by simp
  have 2: "sampleQueue \<noteq> []" by (simp add: sampleQueue_def)
  have 3: "select samplePolicy (maxPerTargetPerMin (sampleArgs 1 False)) sampleQueue =
      Inr ([sampleOp ''0x0'' ''0x0''],
           [sampleEntry ''0xaa'' ''s2'' (sampleOp ''0x1'' ''0x1''),
            sampleEntry ''0xCC'' ''s4'' (sampleOp ''0x2'' ''0x2'')])"
    by (simp add: sampleArgs_def sampleQueue_select)
  have 4: "[sampleOp ''0x0'' ''0x0''] \<noteq> []" by simp
  have 5: "estimateFees (gasPriceReply (sampleRelay (Result (JString ''0x64'')) 4)) =
      Inr \<lparr>feeMaxFeePerGas = ''0xc8'', feeMaxPriorityFeePerGas = ''0xa''\<rparr>"
    by (simp add: sampleRelay_def sample_estimate)
  have 6: "\<not> dryRun (sampleArgs 1 False)" by (simp add: sampleArgs_def)
  have 8: "sendBundle (sendReply (sampleRelay (Result (JString ''0x64'')) 4) 4) = Inr (JString ''0xabc'')"
    by (simp add: sendBundle_def sampleRelay_def)
  from fifth_attempt_succeeds [OF 1 2 3 4 5 6 sample_failures 8]
  show ?thesis by (simp add: sample_sent)
qed

section \<open>Hexadecimal text and its value\<close>

text \<open>
  \<^verbatim>\<open>'0x' + n.toString(16)\<close> converts back to \<open>n\<close> for every \<open>n\<close> that is not negative, and
  BigInt division is the usual one on such numbers.
\<close>

lemma below_16:
  "d < 16 \<Longrightarrow> d \<in> {0, 1, 2, 3, 4, 5, 6, 7, 8, 9, 10, 11, 12, 13, 14, 15::nat}"
  by simp arith

lemma digitVal_digitChar: "d < 16 \<Longrightarrow> digitVal (digitChar d) = Some d"
  by (drule below_16) (auto simp: digitChar_def digitVal_def)

lemma isWhiteSpace_digitChar: "d < 16 \<Longrightarrow> \<not> isWhiteSpace (digitChar d)"
  by (drule below_16) (auto simp: digitChar_def isWhiteSpace_def)

lemma parseDigits_snoc:
  "parseDigits r acc (cs @ [c]) =
     (case parseDigits r acc cs of
        None \<Rightarrow> None
      | Some a \<Rightarrow> (case digitVal c of
                     None \<Rightarrow> None
                   | Some d \<Rightarrow> if d < r then Some (a * r + d) else None))"
  by (induction cs arbitrary: acc) (auto split: option.splits)

lemma parseDigits_toDigits: "parseDigits 16 0 (toDigits 16 n) = Some n"
proof (induction n rule: less_induct)
  case (less n)
  show ?case
  proof (cases "n < 16")
    case True
    then show ?thesis by (simp add: toDigits_small digitVal_digitChar)
  next
    case False
    then have "n div 16 < n" by simp
    from less.IH [OF this] False show ?thesis
      by (simp add: toDigits_step parseDigits_snoc digitVal_digitChar)
  qed
qed

lemma toDigits_not_white: "c \<in> set (toDigits 16 n) \<Longrightarrow> \<not> isWhiteSpace c"
proof (induction n arbitrary: c rule: less_induct)
  case (less n)
  show ?case
  proof (cases "n < 16")
    case True
    with less.prems show ?thesis by (simp add: toDigits_small isWhiteSpace_digitChar)
  next
    case False
    then have smaller: "n div 16 < n" by simp
    have "toDigits 16 n = toDigits 16 (n div 16) @ [digitChar (n mod 16)]"
      by (rule toDigits_step) (use False in simp_all)
    with less.prems have "c \<in> set (toDigits 16 (n div 16)) \<or> c = digitChar (n mod 16)"
      by auto
    then show ?thesis
    proof
      assume "c \<in> set (toDigits 16 (n div 16))"
      then show ?thesis by (rule less.IH [OF smaller])
    next
      assume "c = digitChar (n mod 16)"
      then show ?thesis by (simp add: isWhiteSpace_digitChar)
    qed
  qed
qed

lemma toDigits_nonempty: "2 \<le> r \<Longrightarrow> r \<le> 36 \<Longrightarrow> toDigits r n \<noteq> []"
  by (cases "n < r") (simp_all add: toDigits_small toDigits_step)

lemma trim_id: "\<forall>c\<in>set s. \<not> isWhiteSpace c \<Longrightarrow> trim s = s"
proof -
  assume a: "\<forall>c\<in>set s. \<not> isWhiteSpace c"
  then have 1: "dropWhile isWhiteSpace s = s" by (cases s) auto
  from a have "\<forall>c\<in>set (rev s). \<not> isWhiteSpace c" by simp
  then have 2: "dropWhile isWhiteSpace (rev s) = rev s" by (cases "rev s") auto
  show ?thesis by (simp add: trim_def 1 2)
qed

lemma hex_roundtrip:
  assumes "0 \<le> i"
  shows "StringToBigInt (''0x'' @ toString 16 i) = Some i"
proof -
  let ?ds = "toDigits 16 (nat i)"
  have ts: "toString 16 i = ?ds" using assms by (simp add: toString_def)
  have "\<forall>c\<in>set (''0x'' @ ?ds). \<not> isWhiteSpace c"
    by (auto simp: isWhiteSpace_def dest: toDigits_not_white)
  then have "trim (''0x'' @ ?ds) = ''0x'' @ ?ds" by (rule trim_id)
  then show ?thesis
    using assms
    by (simp add: StringToBigInt_def ts parseRadix_def toDigits_nonempty parseDigits_toDigits)
qed

lemma bigint_div_nonneg: "0 \<le> a \<Longrightarrow> 0 < b \<Longrightarrow> bigint_div a b = a div b"
  by (cases "a = 0") (simp_all add: bigint_div_def)

section \<open>What the retry loop adds to the trace\<close>

lemma sendLoop_prefix:
  "\<exists>rest. trace (sendLoop args relay toSend keep qfile attempt tr) = tr @ rest"
proof (induction args relay toSend keep qfile attempt tr rule: sendLoop.induct)
  case (1 args relay toSend keep qfile attempt tr)
  show ?case
  proof (cases "attempt < 5")
    case False
    then show ?thesis by (simp add: sendLoop_exhausted)
  next
    case True
    show ?thesis
    proof (cases "sendBundle (sendReply relay attempt)")
      case (Inr res)
      with True show ?thesis by (simp add: sendLoop_success)
    next
      case (Inl e)
      from "1.IH" [OF True Inl refl refl] True Inl show ?thesis
        by (auto simp: sendLoop_failure)
    qed
  qed
qed

lemma sendLoop_first_send:
  "\<exists>rest. trace (sendLoop args relay toSend keep qfile 0 tr)
     = tr @ SendBundleCall toSend (entrypoint args) # rest"
proof (cases "sendBundle (sendReply relay 0)")
  case (Inr res)
  then show ?thesis by (simp add: sendLoop_success)
next
  case (Inl e)
  obtain rest where "trace (sendLoop args relay toSend keep qfile 1
      (tr @ [SendBundleCall toSend (entrypoint args), Sleep 2]))
      = (tr @ [SendBundleCall toSend (entrypoint args), Sleep 2]) @ rest"
    using sendLoop_prefix by blast
  moreover have "sendLoop args relay toSend keep qfile 0 tr =
      sendLoop args relay toSend keep qfile 1 (tr @ [SendBundleCall toSend (entrypoint args), Sleep 2])"
    by (rule sendLoop_step [OF _ Inl]) simp_all
  ultimately show ?thesis by simp
qed

lemma sendLoop_sends:
  "SendBundleCall ops ep \<in> set (trace (sendLoop args relay toSend keep qfile attempt tr)) \<Longrightarrow>
   SendBundleCall ops ep \<in> set tr \<or> ops = toSend"
proof (induction args relay toSend keep qfile attempt tr rule: sendLoop.induct)
  case (1 args relay toSend keep qfile attempt tr)
  show ?case
  proof (cases "attempt < 5")
    case False
    with "1.prems" show ?thesis by (simp add: sendLoop_exhausted)
  next
    case True
    show ?thesis
    proof (cases "sendBundle (sendReply relay attempt)")
      case (Inr res)
      with True "1.prems" show ?thesis by (auto simp: sendLoop_success)
    next
      case (Inl e)
      from "1.prems" True Inl
      have "SendBundleCall ops ep \<in> set (trace (sendLoop args relay toSend keep qfile (attempt + 1)
          (tr @ [SendBundleCall toSend (entrypoint args), Sleep (min 60 (2 ^ (attempt + 1)))])))"
        by (simp add: sendLoop_failure)
      from "1.IH" [OF True Inl refl refl this] show ?thesis by auto
    qed
  qed
qed

lemma sendLoop_queries:
  "count_list (trace (sendLoop args relay toSend keep qfile attempt tr)) GasPriceCall
     = count_list tr GasPriceCall"
proof (induction args relay toSend keep qfile attempt tr rule: sendLoop.induct)
  case (1 args relay toSend keep qfile attempt tr)
  show ?case
  proof (cases "attempt < 5")
    case False
    then show ?thesis by (simp add: sendLoop_exhausted)
  next
    case True
    show ?thesis
    proof (cases "sendBundle (sendReply relay attempt)")
      case (Inr res)
      with True show ?thesis by (simp add: sendLoop_success)
    next
      case (Inl e)
      from "1.IH" [OF True Inl refl refl] True Inl show ?thesis
        by (simp add: sendLoop_failure)
    qed
  qed
qed

section \<open>Runs on the sample queues\<close>

lemmas queue_simps =
  select_def groupByTarget_def Let_def lower_simps validate_def conv_simps
  sampleOp_def sampleEntry_def POLICY_def sampleArgs_def

lemma paidQueue_select: "select POLICY 20 paidQueue = Inr ([sampleOp ''0x1'' ''0x1''], [])"
  by (simp add: paidQueue_def queue_simps)

lemma zeroQueue_select: "select POLICY 20 zeroQueue = Inr ([sampleOp ''0x00'' ''0''], [])"
  by (simp add: zeroQueue_def queue_simps)

lemma emptyHexQueue_select: "select POLICY 20 emptyHexQueue = Inl SyntaxError"
  by (simp add: emptyHexQueue_def queue_simps)

lemma sample_success:
  "sendBundle (sendReply (sampleRelay gp 0) 0) = Inr (JString ''0xabc'')"
  by (simp add: sendBundle_def sampleRelay_def)

lemma sampleQueue_cap0:
  "select samplePolicy 0 sampleQueue = Inr ([], sampleQueue)"
  by (simp add: select_def sampleQueue_groups sample_simps) (simp add: sampleQueue_def sample_simps)

section \<open>Fee estimation and backfill: properties\<close>

lemma setFees_maxFeePerGas:
  "maxFeePerGas (setFees fees uo) =
     (if maxFeePerGas uo = ''0x0'' then feeMaxFeePerGas fees else maxFeePerGas uo)"
  by (simp add: setFees_def Let_def)

lemma setFees_maxPriorityFeePerGas:
  "maxPriorityFeePerGas (setFees fees uo) =
     (if maxPriorityFeePerGas uo = ''0x0'' then feeMaxPriorityFeePerGas fees
      else maxPriorityFeePerGas uo)"
  by (simp add: setFees_def Let_def)

lemma setFees_other_fields:
  "(setFees fees uo)\<lparr>maxFeePerGas := maxFeePerGas uo,
      maxPriorityFeePerGas := maxPriorityFeePerGas uo\<rparr> = uo"
  by (simp add: setFees_def Let_def)

lemma estimateFees_result:
  assumes "rpc reply = Inr v" and "BigIntOf v = Inr B"
  shows "estimateFees reply =
           Inr \<lparr>feeMaxFeePerGas = ''0x'' @ toString 16 (2 * B),
                feeMaxPriorityFeePerGas = ''0x'' @ toString 16 (bigint_div B 10)\<rparr>"
  using assms by (simp add: estimateFees_def Let_def mult.commute)

text \<open>
  C6. In a run that submits, with the relay reporting the base fee \<open>B\<close>, every submission
  carries the selected operations with their fees backfilled: an operation whose
  maxFeePerGas was \<^verbatim>\<open>0x0\<close> is sent with the hexadecimal text of \<open>2 * B\<close>, one whose
  maxPriorityFeePerGas was \<^verbatim>\<open>0x0\<close> with that of \<open>B\<close> divided by 10; a fee field whose value is
  not zero is sent as it was, and so is every other field. For \<open>B\<close> not negative the two
  texts convert back to \<open>2 * B\<close> and to \<open>B div 10\<close>.
\<close>

theorem fee_backfill:
  assumes "loadQueue qfile = Inr q" and "q \<noteq> []"
    and "select pol (maxPerTargetPerMin args) q = Inr (toSend, keep)" and "toSend \<noteq> []"
    and "rpc (gasPriceReply relay) = Inr v" and "BigIntOf v = Inr B" and "\<not> dryRun args"
  shows "\<exists>sent rest.
           trace (main pol args relay qfile) = GasPriceCall # SendBundleCall sent (entrypoint args) # rest
           \<and> (\<forall>ops ep. SendBundleCall ops ep \<in> set (trace (main pol args relay qfile)) \<longrightarrow> ops = sent)
           \<and> length sent = length toSend
           \<and> (\<forall>i<length toSend.
                 (maxFeePerGas (toSend ! i) = ''0x0'' \<longrightarrow>
                    maxFeePerGas (sent ! i) = ''0x'' @ toString 16 (2 * B))
                 \<and> (maxPriorityFeePerGas (toSend ! i) = ''0x0'' \<longrightarrow>
                    maxPriorityFeePerGas (sent ! i) = ''0x'' @ toString 16 (bigint_div B 10))
                 \<and> (StringToBigInt (maxFeePerGas (toSend ! i)) \<noteq> Some 0 \<longrightarrow>
                    maxFeePerGas (sent ! i) = maxFeePerGas (toSend ! i))
                 \<and> (StringToBigInt (maxPriorityFeePerGas (toSend ! i)) \<noteq> Some 0 \<longrightarrow>
                    maxPriorityFeePerGas (sent ! i) = maxPriorityFeePerGas (toSend ! i))
                 \<and> (sent ! i)\<lparr>maxFeePerGas := maxFeePerGas (toSend ! i),
                      maxPriorityFeePerGas := maxPriorityFeePerGas (toSend ! i)\<rparr> = toSend ! i)
           \<and> (0 \<le> B \<longrightarrow>
                 StringToBigInt (''0x'' @ toString 16 (2 * B)) = Some (2 * B)
                 \<and> StringToBigInt (''0x'' @ toString 16 (bigint_div B 10)) = Some (B div 10))"
proof -
  define fees where "fees = \<lparr>feeMaxFeePerGas = ''0x'' @ toString 16 (2 * B),
      feeMaxPriorityFeePerGas = ''0x'' @ toString 16 (bigint_div B 10)\<rparr>"
  define sent where "sent = map (setFees fees) toSend"
  have est: "estimateFees (gasPriceReply relay) = Inr fees"
    unfolding fees_def using assms(5,6) by (rule estimateFees_result)
  have run: "main pol args relay qfile = sendLoop args relay sent keep qfile 0 [GasPriceCall]"
    unfolding sent_def using assms(1-4) est assms(7) by (rule main_reaches_submission)
  obtain rest where first: "trace (main pol args relay qfile)
      = GasPriceCall # SendBundleCall sent (entrypoint args) # rest"
    using sendLoop_first_send [of args relay sent keep qfile "[GasPriceCall]"] run by auto
  have only: "\<forall>ops ep. SendBundleCall ops ep \<in> set (trace (main pol args relay qfile)) \<longrightarrow> ops = sent"
    using sendLoop_sends [of _ _ args relay sent keep qfile 0 "[GasPriceCall]"] run by auto
  have len: "length sent = length toSend" by (simp add: sent_def)
  have each: "\<forall>i<length toSend.
      (maxFeePerGas (toSend ! i) = ''0x0'' \<longrightarrow>
         maxFeePerGas (sent ! i) = ''0x'' @ toString 16 (2 * B))
      \<and> (maxPriorityFeePerGas (toSend ! i) = ''0x0'' \<longrightarrow>
         maxPriorityFeePerGas (sent ! i) = ''0x'' @ toString 16 (bigint_div B 10))
      \<and> (StringToBigInt (maxFeePerGas (toSend ! i)) \<noteq> Some 0 \<longrightarrow>
         maxFeePerGas (sent ! i) = maxFeePerGas (toSend ! i))
      \<and> (StringToBigInt (maxPriorityFeePerGas (toSend ! i)) \<noteq> Some 0 \<longrightarrow>
         maxPriorityFeePerGas (sent ! i) = maxPriorityFeePerGas (toSend ! i))
      \<and> (sent ! i)\<lparr>maxFeePerGas := maxFeePerGas (toSend ! i),
           maxPriorityFeePerGas := maxPriorityFeePerGas (toSend ! i)\<rparr> = toSend ! i"
  proof (intro allI impI)
    fix i assume i: "i < length toSend"
    then have "sent ! i = setFees fees (toSend ! i)" by (simp add: sent_def)
    then show "(maxFeePerGas (toSend ! i) = ''0x0'' \<longrightarrow>
         maxFeePerGas (sent ! i) = ''0x'' @ toString 16 (2 * B))
      \<and> (maxPriorityFeePerGas (toSend ! i) = ''0x0'' \<longrightarrow>
         maxPriorityFeePerGas (sent ! i) = ''0x'' @ toString 16 (bigint_div B 10))
      \<and> (StringToBigInt (maxFeePerGas (toSend ! i)) \<noteq> Some 0 \<longrightarrow>
         maxFeePerGas (sent ! i) = maxFeePerGas (toSend ! i))
      \<and> (StringToBigInt (maxPriorityFeePerGas (toSend ! i)) \<noteq> Some 0 \<longrightarrow>
         maxPriorityFeePerGas (sent ! i) = maxPriorityFeePerGas (toSend ! i))
      \<and> (sent ! i)\<lparr>maxFeePerGas := maxFeePerGas (toSend ! i),
           maxPriorityFeePerGas := maxPriorityFeePerGas (toSend ! i)\<rparr> = toSend ! i"
      using StringToBigInt_0x0
      by (auto simp: setFees_maxFeePerGas setFees_maxPriorityFeePerGas setFees_other_fields fees_def)
  qed
  have num: "0 \<le> B \<longrightarrow>
      StringToBigInt (''0x'' @ toString 16 (2 * B)) = Some (2 * B)
      \<and> StringToBigInt (''0x'' @ toString 16 (bigint_div B 10)) = Some (B div 10)"
  proof
    assume b: "0 \<le> B"
    then have d: "bigint_div B 10 = B div 10" by (simp add: bigint_div_nonneg)
    have 1: "StringToBigInt (''0x'' @ toString 16 (2 * B)) = Some (2 * B)"
      by (rule hex_roundtrip) (use b in simp)
    have 2: "StringToBigInt (''0x'' @ toString 16 (B div 10)) = Some (B div 10)"
      by (rule hex_roundtrip) (use b in simp)
    from 1 2 show "StringToBigInt (''0x'' @ toString 16 (2 * B)) = Some (2 * B)
      \<and> StringToBigInt (''0x'' @ toString 16 (bigint_div B 10)) = Some (B div 10)"
      unfolding d by (rule conjI)
  qed
  from first only len each num show ?thesis by blast
qed

theorem fee_backfill_witness:
  "StringToBigInt ''0xc8'' = Some 200 \<and> StringToBigInt ''0xa'' = Some 10
   \<and> (\<exists>sent rest.
        trace (main samplePolicy (sampleArgs 1 False) (sampleRelay (Result (JString ''0x64'')) 0)
                 (Entries sampleQueue))
          = GasPriceCall # SendBundleCall sent (entrypoint (sampleArgs 1 False)) # rest
        \<and> length sent = 1
        \<and> maxFeePerGas (sent ! 0) = ''0xc8'' \<and> maxPriorityFeePerGas (sent ! 0) = ''0xa'')"
proof -
  have 1: "loadQueue (Entries sampleQueue) = Inr sampleQueue" by simp
  have 2: "sampleQueue \<noteq> []" by (simp add: sampleQueue_def)
  have 3: "select samplePolicy (maxPerTargetPerMin (sampleArgs 1 False)) sampleQueue =
      Inr ([sampleOp ''0x0'' ''0x0''],
           [sampleEntry ''0xaa'' ''s2'' (sampleOp ''0x1'' ''0x1''),
            sampleEntry ''0xCC'' ''s4'' (sampleOp ''0x2'' ''0x2'')])"
    by (simp add: sampleArgs_def sampleQueue_select)
  have 4: "[sampleOp ''0x0'' ''0x0''] \<noteq> []" by simp
  have 5: "rpc (gasPriceReply (sampleRelay (Result (JString ''0x64'')) 0)) = Inr (JString ''0x64'')"
    by (simp add: sampleRelay_def)
  have 6: "BigIntOf (JString ''0x64'') = Inr 100" by (simp add: conv_simps)
  have 7: "\<not> dryRun (sampleArgs 1 False)" by (simp add: sampleArgs_def)
  have h: "''0x'' @ toString 16 (2 * 100) = ''0xc8''" "''0x'' @ toString 16 (bigint_div 100 10) = ''0xa''"
    by (simp_all add: bigint_div_def conv_simps)
  from fee_backfill [OF 1 2 3 4 5 6 7] obtain sent rest where
    t: "trace (main samplePolicy (sampleArgs 1 False) (sampleRelay (Result (JString ''0x64'')) 0)
                 (Entries sampleQueue))
          = GasPriceCall # SendBundleCall sent (entrypoint (sampleArgs 1 False)) # rest"
    and l: "length sent = length [sampleOp ''0x0'' ''0x0'']"
    and e: "\<forall>i<length [sampleOp ''0x0'' ''0x0''].
        (maxFeePerGas ([sampleOp ''0x0'' ''0x0''] ! i) = ''0x0'' \<longrightarrow>
           maxFeePerGas (sent ! i) = ''0x'' @ toString 16 (2 * 100))
        \<and> (maxPriorityFeePerGas ([sampleOp ''0x0'' ''0x0''] ! i) = ''0x0'' \<longrightarrow>
           maxPriorityFeePerGas (sent ! i) = ''0x'' @ toString 16 (bigint_div 100 10))"
    by blast
  from e [rule_format, of 0] have "maxFeePerGas (sent ! 0) = ''0xc8''"
    and "maxPriorityFeePerGas (sent ! 0) = ''0xa''"
    unfolding h by (simp_all add: sampleOp_def)
  moreover have "StringToBigInt ''0xc8'' = Some 200" "StringToBigInt ''0xa'' = Some 10"
    by (simp_all add: conv_simps)
  ultimately show ?thesis using t l by auto
qed

text \<open>
  C10. The backfill tests the text of a fee field against \<^verbatim>\<open>0x0\<close>: in a run that submits,
  every fee field of a selected operation that is not literally \<^verbatim>\<open>0x0\<close> is sent unchanged,
  also when its value is zero, as for \<^verbatim>\<open>0x00\<close> or \<^verbatim>\<open>0\<close>.
\<close>

theorem backfill_requires_exact_0x0:
  assumes "loadQueue qfile = Inr q" and "q \<noteq> []"
    and "select pol (maxPerTargetPerMin args) q = Inr (toSend, keep)" and "toSend \<noteq> []"
    and "estimateFees (gasPriceReply relay) = Inr fees" and "\<not> dryRun args"
  shows "\<exists>sent rest.
           trace (main pol args relay qfile) = GasPriceCall # SendBundleCall sent (entrypoint args) # rest
           \<and> sent = map (setFees fees) toSend
           \<and> (\<forall>i<length toSend.
                 (maxFeePerGas (toSend ! i) \<noteq> ''0x0'' \<longrightarrow>
                    maxFeePerGas (sent ! i) = maxFeePerGas (toSend ! i))
                 \<and> (maxPriorityFeePerGas (toSend ! i) \<noteq> ''0x0'' \<longrightarrow>
                    maxPriorityFeePerGas (sent ! i) = maxPriorityFeePerGas (toSend ! i)))"
proof -
  have run: "main pol args relay qfile =
      sendLoop args relay (map (setFees fees) toSend) keep qfile 0 [GasPriceCall]"
    using assms by (rule main_reaches_submission)
  obtain rest where first: "trace (main pol args relay qfile)
      = GasPriceCall # SendBundleCall (map (setFees fees) toSend) (entrypoint args) # rest"
    using sendLoop_first_send [of args relay "map (setFees fees) toSend" keep qfile "[GasPriceCall]"] run
    by auto
  have "\<forall>i<length toSend.
      (maxFeePerGas (toSend ! i) \<noteq> ''0x0'' \<longrightarrow>
         maxFeePerGas (map (setFees fees) toSend ! i) = maxFeePerGas (toSend ! i))
      \<and> (maxPriorityFeePerGas (toSend ! i) \<noteq> ''0x0'' \<longrightarrow>
         maxPriorityFeePerGas (map (setFees fees) toSend ! i) = maxPriorityFeePerGas (toSend ! i))"
    by (simp add: setFees_maxFeePerGas setFees_maxPriorityFeePerGas)
  with first show ?thesis by blast
qed

theorem backfill_requires_exact_0x0_witness:
  "StringToBigInt ''0x00'' = Some 0 \<and> StringToBigInt ''0'' = Some 0
   \<and> (\<exists>rest.
        trace (main POLICY (sampleArgs 20 False) (sampleRelay (Result (JString ''0x64'')) 0)
                 (Entries zeroQueue))
          = GasPriceCall # SendBundleCall [sampleOp ''0x00'' ''0''] (entrypoint (sampleArgs 20 False)) # rest)"
proof -
  have 1: "loadQueue (Entries zeroQueue) = Inr zeroQueue" by simp
  have 2: "zeroQueue \<noteq> []" by (simp add: zeroQueue_def)
  have 3: "select POLICY (maxPerTargetPerMin (sampleArgs 20 False)) zeroQueue
      = Inr ([sampleOp ''0x00'' ''0''], [])"
    by (simp add: sampleArgs_def zeroQueue_select)
  have 4: "[sampleOp ''0x00'' ''0''] \<noteq> []" by simp
  have 5: "estimateFees (gasPriceReply (sampleRelay (Result (JString ''0x64'')) 0)) =
      Inr \<lparr>feeMaxFeePerGas = ''0xc8'', feeMaxPriorityFeePerGas = ''0xa''\<rparr>"
    by (simp add: sampleRelay_def sample_estimate)
  have 6: "\<not> dryRun (sampleArgs 20 False)" by (simp add: sampleArgs_def)
  have s: "map (setFees \<lparr>feeMaxFeePerGas = ''0xc8'', feeMaxPriorityFeePerGas = ''0xa''\<rparr>)
      [sampleOp ''0x00'' ''0''] = [sampleOp ''0x00'' ''0'']"
    by (simp add: setFees_def sampleOp_def)
  from backfill_requires_exact_0x0 [OF 1 2 3 4 5 6] obtain sent rest where
    "trace (main POLICY (sampleArgs 20 False) (sampleRelay (Result (JString ''0x64'')) 0)
                 (Entries zeroQueue))
          = GasPriceCall # SendBundleCall sent (entrypoint (sampleArgs 20 False)) # rest"
    and "sent = map (setFees \<lparr>feeMaxFeePerGas = ''0xc8'', feeMaxPriorityFeePerGas = ''0xa''\<rparr>)
      [sampleOp ''0x00'' ''0'']"
    by blast
  then have "\<exists>rest.
        trace (main POLICY (sampleArgs 20 False) (sampleRelay (Result (JString ''0x64'')) 0)
                 (Entries zeroQueue))
          = GasPriceCall # SendBundleCall [sampleOp ''0x00'' ''0''] (entrypoint (sampleArgs 20 False)) # rest"
    unfolding s by blast
  moreover have "StringToBigInt ''0x00'' = Some 0" "StringToBigInt ''0'' = Some 0"
    by (simp_all add: conv_simps)
  ultimately show ?thesis by blast
qed

text \<open>
  The bare prefix \<^verbatim>\<open>0x\<close> is not a number for \<^verbatim>\<open>BigInt\<close>: an operation carrying it makes
  \<^verbatim>\<open>validate\<close> throw, so the run ends before anything is selected.
\<close>

lemma bare_0x_aborts_run:
  "StringToBigInt ''0x'' = None
   \<and> main POLICY (sampleArgs 20 False) relay (Entries emptyHexQueue)
       = \<lparr>trace = [], store = Entries emptyHexQueue, outcome = Crashed SyntaxError\<rparr>"
proof -
  have "emptyHexQueue \<noteq> []" by (simp add: emptyHexQueue_def)
  moreover have "select POLICY (maxPerTargetPerMin (sampleArgs 20 False)) emptyHexQueue = Inl SyntaxError"
    by (simp add: sampleArgs_def emptyHexQueue_select)
  moreover have "StringToBigInt ''0x'' = None" by (simp add: conv_simps)
  ultimately show ?thesis by (simp add: main_def)
qed

section \<open>When the relay is contacted\<close>

text \<open>
  C7, as the source has it. The fee query is made exactly when selection returns at least
  one operation to send, and then once, whatever the fee fields of the selected operations
  are; no query is made when the queue is empty, when nothing is selected, or when the run
  ends before selection is complete.
\<close>

theorem fee_query_iff_selected:
  "(GasPriceCall \<in> set (trace (main pol args relay qfile)))
     = (\<exists>q toSend keep. loadQueue qfile = Inr q \<and> q \<noteq> []
          \<and> select pol (maxPerTargetPerMin args) q = Inr (toSend, keep) \<and> toSend \<noteq> [])
   \<and> count_list (trace (main pol args relay qfile)) GasPriceCall \<le> 1"
proof (cases "loadQueue qfile")
  case (Inl e)
  then show ?thesis by (simp add: main_def)
next
  case (Inr q)
  show ?thesis
  proof (cases "q = []")
    case True
    with Inr show ?thesis by (simp add: main_def)
  next
    case False
    show ?thesis
    proof (cases "select pol (maxPerTargetPerMin args) q")
      case (Inl e)
      with Inr False show ?thesis by (simp add: main_def)
    next
      case sel: (Inr r)
      obtain toSend keep where r: "r = (toSend, keep)" by (cases r)
      show ?thesis
      proof (cases "toSend = []")
        case True
        with Inr False sel r show ?thesis by (simp add: main_def)
      next
        case nonempty: False
        have c: "count_list (trace (main pol args relay qfile)) GasPriceCall = 1"
          using Inr False sel r nonempty
          by (simp add: main_def Let_def sendLoop_queries split: sum.splits)
        then have "GasPriceCall \<in> set (trace (main pol args relay qfile))"
          by (metis count_list_0_iff zero_neq_one)
        with c Inr False sel r nonempty show ?thesis by simp
      qed
    qed
  qed
qed

theorem fee_query_iff_selected_witness:
  "GasPriceCall \<in> set (trace (main POLICY (sampleArgs 20 False)
       (sampleRelay (Result (JString ''0x64'')) 0) (Entries paidQueue)))
   \<and> GasPriceCall \<notin> set (trace (main samplePolicy (sampleArgs 0 False)
       (sampleRelay (Result (JString ''0x64'')) 0) (Entries sampleQueue)))"
proof -
  have "\<exists>q toSend keep. loadQueue (Entries paidQueue) = Inr q \<and> q \<noteq> []
      \<and> select POLICY (maxPerTargetPerMin (sampleArgs 20 False)) q = Inr (toSend, keep) \<and> toSend \<noteq> []"
    by (simp add: sampleArgs_def paidQueue_select) (simp add: paidQueue_def)
  then have 1: "GasPriceCall \<in> set (trace (main POLICY (sampleArgs 20 False)
       (sampleRelay (Result (JString ''0x64'')) 0) (Entries paidQueue)))"
    using fee_query_iff_selected [of POLICY "sampleArgs 20 False"
        "sampleRelay (Result (JString ''0x64'')) 0" "Entries paidQueue"] by blast
  have "\<not> (\<exists>q toSend keep. loadQueue (Entries sampleQueue) = Inr q \<and> q \<noteq> []
      \<and> select samplePolicy (maxPerTargetPerMin (sampleArgs 0 False)) q = Inr (toSend, keep)
      \<and> toSend \<noteq> [])"
    by (simp add: sampleArgs_def sampleQueue_cap0)
  then have 2: "GasPriceCall \<notin> set (trace (main samplePolicy (sampleArgs 0 False)
       (sampleRelay (Result (JString ''0x64'')) 0) (Entries sampleQueue)))"
    using fee_query_iff_selected [of samplePolicy "sampleArgs 0 False"
        "sampleRelay (Result (JString ''0x64'')) 0" "Entries sampleQueue"] by blast
  from 1 2 show ?thesis by (rule conjI)
qed

text \<open>
  C7 as stated asks that no fee query be made when every selected operation has both fee
  fields set. The run below selects one operation whose two fees are 1, and it queries
  the relay for the fee all the same.
\<close>

theorem fee_query_without_unset_fee:
  "select POLICY 20 paidQueue = Inr ([sampleOp ''0x1'' ''0x1''], [])
   \<and> StringToBigInt (maxFeePerGas (sampleOp ''0x1'' ''0x1'')) = Some 1
   \<and> StringToBigInt (maxPriorityFeePerGas (sampleOp ''0x1'' ''0x1'')) = Some 1
   \<and> main POLICY (sampleArgs 20 False) (sampleRelay (Result (JString ''0x64'')) 0) (Entries paidQueue)
     = \<lparr>trace = [GasPriceCall,
          SendBundleCall [sampleOp ''0x1'' ''0x1''] (entrypoint (sampleArgs 20 False)),
          SaveQueue []],
        store = Entries [], outcome = Sent (JString ''0xabc'')\<rparr>"
proof -
  have 1: "loadQueue (Entries paidQueue) = Inr paidQueue" by simp
  have 2: "paidQueue \<noteq> []" by (simp add: paidQueue_def)
  have 3: "select POLICY (maxPerTargetPerMin (sampleArgs 20 False)) paidQueue
      = Inr ([sampleOp ''0x1'' ''0x1''], [])"
    by (simp add: sampleArgs_def paidQueue_select)
  have 4: "[sampleOp ''0x1'' ''0x1''] \<noteq> []" by simp
  have 5: "estimateFees (gasPriceReply (sampleRelay (Result (JString ''0x64'')) 0)) =
      Inr \<lparr>feeMaxFeePerGas = ''0xc8'', feeMaxPriorityFeePerGas = ''0xa''\<rparr>"
    by (simp add: sampleRelay_def sample_estimate)
  have 6: "\<not> dryRun (sampleArgs 20 False)" by (simp add: sampleArgs_def)
  have s: "setFees \<lparr>feeMaxFeePerGas = ''0xc8'', feeMaxPriorityFeePerGas = ''0xa''\<rparr>
      (sampleOp ''0x1'' ''0x1'') = sampleOp ''0x1'' ''0x1''"
    by (simp add: setFees_def sampleOp_def)
  have "main POLICY (sampleArgs 20 False) (sampleRelay (Result (JString ''0x64'')) 0) (Entries paidQueue)
     = \<lparr>trace = [GasPriceCall,
          SendBundleCall [sampleOp ''0x1'' ''0x1''] (entrypoint (sampleArgs 20 False)),
          SaveQueue []],
        store = Entries [], outcome = Sent (JString ''0xabc'')\<rparr>"
    unfolding main_reaches_submission [OF 1 2 3 4 5 6]
    using sendLoop_success [OF _ sample_success]
    by (simp add: s saveQueue_def)
  moreover have "StringToBigInt (maxFeePerGas (sampleOp ''0x1'' ''0x1'')) = Some 1"
    "StringToBigInt (maxPriorityFeePerGas (sampleOp ''0x1'' ''0x1'')) = Some 1"
    by (simp_all add: sampleOp_def conv_simps)
  ultimately show ?thesis using paidQueue_select by simp
qed

text \<open>
  C8. A run that finds the queue empty, and a run in which selection returns nothing to
  send, make no relay call, write nothing and leave the queue file as it was.
\<close>

theorem noop_run_contacts_nothing:
  "(loadQueue qfile = Inr [] \<longrightarrow>
      main pol args relay qfile = \<lparr>trace = [], store = qfile, outcome = QueueEmpty\<rparr>)
   \<and> (\<forall>q keep. loadQueue qfile = Inr q \<and> q \<noteq> []
          \<and> select pol (maxPerTargetPerMin args) q = Inr ([], keep) \<longrightarrow>
          main pol args relay qfile = \<lparr>trace = [], store = qfile, outcome = NothingSelected\<rparr>)"
  by (simp add: main_def)

theorem noop_run_contacts_nothing_witness:
  "main samplePolicy (sampleArgs 1 False) (sampleRelay NetworkFailure 0) Missing
     = \<lparr>trace = [], store = Missing, outcome = QueueEmpty\<rparr>
   \<and> main samplePolicy (sampleArgs 0 False) (sampleRelay NetworkFailure 0) (Entries sampleQueue)
     = \<lparr>trace = [], store = Entries sampleQueue, outcome = NothingSelected\<rparr>"
proof -
  have ne: "sampleQueue \<noteq> []" by (simp add: sampleQueue_def)
  have sel: "select samplePolicy (maxPerTargetPerMin (sampleArgs 0 False)) sampleQueue
      = Inr ([], sampleQueue)"
    by (simp add: sampleArgs_def sampleQueue_cap0)
  from noop_run_contacts_nothing [of Missing samplePolicy "sampleArgs 1 False" "sampleRelay NetworkFailure 0"]
  have 1: "main samplePolicy (sampleArgs 1 False) (sampleRelay NetworkFailure 0) Missing
     = \<lparr>trace = [], store = Missing, outcome = QueueEmpty\<rparr>" by simp
  from noop_run_contacts_nothing [of "Entries sampleQueue" samplePolicy "sampleArgs 0 False"
      "sampleRelay NetworkFailure 0"] ne sel
  have 2: "main samplePolicy (sampleArgs 0 False) (sampleRelay NetworkFailure 0) (Entries sampleQueue)
     = \<lparr>trace = [], store = Entries sampleQueue, outcome = NothingSelected\<rparr>" by simp
  from 1 2 show ?thesis by (rule conjI)
qed


lemma BigIntOf_accepts_non_numbers:
  "BigIntOf (JBool True) = Inr 1 \<and> BigIntOf (JBool False) = Inr 0
   \<and> BigIntOf (JString []) = Inr 0 \<and> BigIntOf (JString [CHR '' '']) = Inr 0"
  by (simp add: conv_simps)




end
